theory Spec2Isabelle
  imports Main "HOL-Library.AList"
begin

section \<open>Data model (typings/base_types.py)\<close>

text \<open>
  Python objects are shared by reference: the Store \<open>self.all\<close>, the list
  \<open>self.root_items\<close> and the \<open>children\<close> lists all point to the same
  HierarchicalWorkItem objects, and \<open>_create_other_parent\<close> mutates objects that are
  reachable from two places. Objects therefore live in an explicit heap (a list of
  objects; an address is an index, a fresh object is appended), and every container
  holds addresses.
\<close>

type_synonym addr = nat

datatype Platform = AZURE_DEVOPS | GITHUB

text \<open>An exception raised by an external collaborator (platform client, summariser).\<close>

datatype error = Raised string

text \<open>
  \<open>CommitInfo\<close>. Its fields \<open>sha\<close>, \<open>author\<close>, \<open>date\<close> and \<open>url\<close> carry
  the prefix \<open>commit_\<close>: a WorkItem has fields of the same names.
\<close>

record CommitInfo =
  commit_sha :: string
  message :: string
  commit_author :: string
  commit_date :: string
  commit_url :: string

text \<open>
  \<open>WorkItem\<close>, field by field. The field \<open>id\<close> is \<open>id'\<close> here (\<open>id\<close> is the
  identity function of HOL); \<open>parent\<close> is a reference.
\<close>

record WorkItem =
  id' :: int
  type :: string
  state :: string
  title :: string
  icon :: string
  root :: bool
  orphan :: bool
  parent_id :: int
  parent :: "addr option"
  comment_count :: int
  story_points :: "int option"
  summary :: "string option"
  priority :: "int option"
  description :: "string option"
  repro_steps :: "string option"
  acceptance_criteria :: "string option"
  tags :: "string list"
  url :: string
  sha :: "string option"
  author :: "string option"
  date :: "string option"
  comments :: "string list"

text \<open>
  \<open>HierarchicalWorkItem\<close> and \<open>WorkItemGroup\<close> are declared in the typings package,
  outside the files at hand; their shape is taken from the way work.py builds them:
  a HierarchicalWorkItem is constructed from the fields of a WorkItem
  (\<open>HierarchicalWorkItem(**work_item.__dict__)\<close>) and has a list \<open>children\<close>
  (\<open>children=[]\<close>, \<open>other_parent.children = orphaned_items\<close>); a WorkItemGroup is
  built as \<open>WorkItemGroup(type=..., icon=..., items=...)\<close>.
\<close>

record HierarchicalWorkItem = WorkItem +
  children :: "addr list"

record WorkItemGroup =
  group_type :: string
  group_icon :: string
  items :: "addr list"

text \<open>
  \<open>HierarchicalWorkItem(**work_item.__dict__)\<close> for a flat WorkItem: the same fields,
  and the default (empty) list of children.
\<close>

definition hierarchical :: "WorkItem \<Rightarrow> HierarchicalWorkItem" where
  "hierarchical w =
     \<lparr>id' = id' w, type = type w, state = state w, title = title w, icon = icon w,
      root = root w, orphan = orphan w, parent_id = parent_id w, parent = parent w,
      comment_count = comment_count w, story_points = story_points w,
      summary = summary w, priority = priority w, description = description w,
      repro_steps = repro_steps w, acceptance_criteria = acceptance_criteria w,
      tags = tags w, url = url w, sha = sha w, author = author w, date = date w,
      comments = comments w, children = []\<rparr>"

section \<open>State of a Work object and its collaborators\<close>

text \<open>
  The fields of \<open>Work\<close> (\<open>__init__\<close>), the configuration values it reads
  (\<open>config.project.platform.platform\<close>, \<open>config.model.item_summary\<close>,
  \<open>config.include_commits\<close>, \<open>config.prompts.item\<close>), and the heap of objects.
  \<open>all\<close> is a Python dict: an association list in insertion order, looked up with
  \<open>map_of\<close> and assigned with \<open>AList.update\<close> (replace in place, or append).
  \<open>fetch_log\<close> is not a field of the class: it is the history of the calls of
  \<open>client.get_work_item_by_id\<close>, the identities requested in call order. With it
  "a fetch was issued" can be stated, and the client's answer can depend on the moment
  of the call.
\<close>

record Work =
  platform :: Platform
  item_summary :: bool
  include_commits :: bool
  item_prompt :: string
  heap :: "HierarchicalWorkItem list"
  all :: "(int \<times> addr) list"
  root_items :: "addr list"
  by_type :: "WorkItemGroup list"
  item_ids :: "int list"
  fetch_log :: "int list"

text \<open>
  The collaborators, outside the files at hand, as functions:
  the platform client (\<open>get_work_item_by_id\<close>, \<open>get_work_items_with_details\<close>,
  \<open>get_commits\<close>), the summariser (\<open>config.model.summarise\<close>), the hierarchy builder
  (\<open>utilities.Hierarchy\<close>), and two built-ins of Python (\<open>hash\<close> on strings and the
  \<open>repr\<close> of a list of strings, which formats \<open>wi.comments\<close> in the prompt).
  Each call either raises or returns. \<open>get_work_item_by_id\<close> is a network call
  that the engine issues many times: its answer depends on the identity and on the
  number of fetches issued before it, so a second fetch of one identity may fail where
  the first succeeded. (\<open>hash\<close> is one function during a run.)
  \<open>get_work_items_with_details\<close> returns objects that may point to further objects
  (the children of a root item on GitHub): given the first free address, it yields the
  objects it creates, which are placed on the heap from that address on, and the list
  of items it returns. \<open>Hierarchy\<close> reads the Store and its objects, may rewrite the
  objects (child lists), and yields root items and groups.
\<close>

record Externals =
  get_work_item_by_id :: "nat \<Rightarrow> int \<Rightarrow> error + WorkItem"
  get_work_items_with_details ::
    "addr \<Rightarrow> error + (HierarchicalWorkItem list \<times> HierarchicalWorkItem list)"
  get_commits :: "error + CommitInfo list"
  summarise :: "string \<Rightarrow> error + string"
  Hierarchy ::
    "HierarchicalWorkItem list \<Rightarrow> (int \<times> addr) list
       \<Rightarrow> error + (HierarchicalWorkItem list \<times> addr list \<times> WorkItemGroup list)"
  py_hash :: "string \<Rightarrow> int"
  py_repr :: "string list \<Rightarrow> string"

text \<open>
  A call either raises, leaving the object in the state reached so far, or returns a
  value and the new state.
\<close>

type_synonym 'a result = "(error \<times> Work) + ('a \<times> Work)"

text \<open>The state a call ends in, whether it raised or returned.\<close>

definition state_of :: "'a result \<Rightarrow> Work" where
  "state_of r = (case r of Inl (e, s) \<Rightarrow> s | Inr (x, s) \<Rightarrow> s)"

definition obj :: "Work \<Rightarrow> addr \<Rightarrow> HierarchicalWorkItem" where
  "obj s a = heap s ! a"

definition alloc :: "HierarchicalWorkItem \<Rightarrow> Work \<Rightarrow> addr \<times> Work" where
  "alloc x s = (length (heap s), s\<lparr>heap := heap s @ [x]\<rparr>)"

definition keys :: "Work \<Rightarrow> int set" where
  "keys s = fst ` set (all s)"

definition values_all :: "Work \<Rightarrow> addr list" where
  "values_all s = map snd (all s)"

section \<open>str.lower\<close>

text \<open>
  \<open>str.lower()\<close> on the letters A to Z; every other character is left as it is. (On
  text outside ASCII Python's \<open>lower\<close> never yields one of the letters of "commit"
  from a different character, so the comparisons with "commit" below are not affected.)
\<close>

definition lower_char :: "char \<Rightarrow> char" where
  "lower_char c =
     (case map_of (zip ''ABCDEFGHIJKLMNOPQRSTUVWXYZ'' ''abcdefghijklmnopqrstuvwxyz'') c of
        Some d \<Rightarrow> d
      | None \<Rightarrow> c)"

definition lower :: "string \<Rightarrow> string" where
  "lower s = map lower_char s"

section \<open>work.py\<close>

subsection \<open>summarize_work_item (lines 83-108)\<close>

definition str_opt :: "string option \<Rightarrow> string" where
  "str_opt x = (case x of None \<Rightarrow> ''None'' | Some t \<Rightarrow> t)"

definition prompt_of :: "Externals \<Rightarrow> Work \<Rightarrow> HierarchicalWorkItem \<Rightarrow> string" where
  "prompt_of c s wi =
     item_prompt s @ '': '' @ title wi @ '' item type: '' @ type wi @ '' ''
       @ str_opt (description wi) @ '' '' @ py_repr c (comments wi)"

definition summarize_work_item :: "Externals \<Rightarrow> addr \<Rightarrow> Work \<Rightarrow> addr result" where
  "summarize_work_item c wi s =
     (if lower (type (obj s wi)) = ''commit'' then Inr (wi, s)
      else if \<not> item_summary s then Inr (wi, s)
      else (case summarise c (prompt_of c s (obj s wi)) of
              Inl e \<Rightarrow> Inl (e, s)
            | Inr text \<Rightarrow>
                Inr (wi, s\<lparr>heap := (heap s)[wi := (obj s wi)\<lparr>summary := Some text\<rparr>]\<rparr>)))"

subsection \<open>add, get_item_by_id (lines 124-134)\<close>

text \<open>
  \<open>add\<close> receives the payload as the HierarchicalWorkItem that the constructor call
  of line 127 builds from it (\<open>hierarchical w\<close> for a flat WorkItem). The lookup of
  line 129 cannot miss: the key is present, or line 128 has just stored it.
\<close>

definition add :: "HierarchicalWorkItem \<Rightarrow> Work \<Rightarrow> addr \<times> Work" where
  "add work_item s =
     (case map_of (all s) (id' work_item) of
        None \<Rightarrow>
          (let (hierarchical_item, s1) = alloc work_item s
           in (hierarchical_item,
               s1\<lparr>all := AList.update (id' work_item) hierarchical_item (all s1)\<rparr>))
      | Some existing \<Rightarrow> (existing, s))"

definition get_item_by_id :: "Externals \<Rightarrow> int \<Rightarrow> Work \<Rightarrow> addr result" where
  "get_item_by_id c item_id s =
     (let s1 = s\<lparr>fetch_log := fetch_log s @ [item_id]\<rparr>
      in case get_work_item_by_id c (length (fetch_log s)) item_id of
           Inl e \<Rightarrow> Inl (e, s1)
         | Inr item \<Rightarrow> Inr (add (hierarchical item) s1))"

text \<open>
  \<open>asyncio.gather\<close> over a list of \<open>get_item_by_id\<close> tasks (lines 161 and 238).
  The gather schedules every task, and a task that raises does not cancel the others:
  every fetch of the list is issued, every item that arrives is added, and the gather
  raises the first exception. The tasks interleave only at their awaits; the model takes
  the schedule in which the answers arrive in list order.
\<close>

fun gather_get_item_by_id :: "Externals \<Rightarrow> int list \<Rightarrow> Work \<Rightarrow> addr list result" where
  "gather_get_item_by_id c [] s = Inr ([], s)"
| "gather_get_item_by_id c (k # ks) s =
     (case get_item_by_id c k s of
        Inl (e, s1) \<Rightarrow> Inl (e, state_of (gather_get_item_by_id c ks s1))
      | Inr (a, s1) \<Rightarrow>
          (case gather_get_item_by_id c ks s1 of
             Inl x \<Rightarrow> Inl x
           | Inr (as, s2) \<Rightarrow> Inr (a # as, s2)))"

subsection \<open>_fetch_parents (lines 221-240)\<close>

text \<open>
  The while loop of lines 230-232. It need not end (a client may return an endless
  chain of parents), so the result is an option: \<open>None\<close> is a loop that runs forever.
  \<open>items_to_fetch\<close> is a Python set; it is kept as a list without duplicates.
\<close>

partial_function (option) walk_parents ::
  "Externals \<Rightarrow> addr \<Rightarrow> int list \<Rightarrow> Work \<Rightarrow> int list result option" where
  "walk_parents c current_item items_to_fetch s =
     (if parent_id (obj s current_item) \<noteq> 0 \<and> parent_id (obj s current_item) \<notin> keys s
      then (case get_item_by_id c (parent_id (obj s current_item)) s of
              Inl x \<Rightarrow> Some (Inl x)
            | Inr (fetched, s1) \<Rightarrow>
                walk_parents c fetched
                  (List.insert (parent_id (obj s current_item)) items_to_fetch) s1)
      else Some (Inr (items_to_fetch, s)))"

text \<open>The for loop of lines 228-232 over the snapshot \<open>items_list\<close>.\<close>

fun scan_items ::
  "Externals \<Rightarrow> addr list \<Rightarrow> int list \<Rightarrow> Work \<Rightarrow> int list result option" where
  "scan_items c [] items_to_fetch s = Some (Inr (items_to_fetch, s))"
| "scan_items c (item # items_list) items_to_fetch s =
     (case walk_parents c item items_to_fetch s of
        None \<Rightarrow> None
      | Some (Inl x) \<Rightarrow> Some (Inl x)
      | Some (Inr (items_to_fetch1, s1)) \<Rightarrow> scan_items c items_list items_to_fetch1 s1)"

text \<open>\<open>list(items_to_fetch)[i : i + batch_size]\<close> for \<open>i\<close> in \<open>range(0, len, batch_size)\<close>.\<close>

definition batches :: "nat \<Rightarrow> 'a list \<Rightarrow> 'a list list" where
  "batches batch_size xs =
     map (\<lambda>i. take batch_size (drop i xs)) [i \<leftarrow> [0..<length xs]. i mod batch_size = 0]"

fun fetch_batches :: "Externals \<Rightarrow> int list list \<Rightarrow> Work \<Rightarrow> unit result" where
  "fetch_batches c [] s = Inr ((), s)"
| "fetch_batches c (batch # rest) s =
     (case gather_get_item_by_id c batch s of
        Inl x \<Rightarrow> Inl x
      | Inr (_, s1) \<Rightarrow> fetch_batches c rest s1)"

definition fetch_parents :: "Externals \<Rightarrow> Work \<Rightarrow> unit result option" where
  "fetch_parents c s =
     (if platform s \<noteq> AZURE_DEVOPS then Some (Inr ((), s))
      else (case scan_items c (values_all s) [] s of
              None \<Rightarrow> None
            | Some (Inl x) \<Rightarrow> Some (Inl x)
            | Some (Inr (items_to_fetch, s1)) \<Rightarrow>
                Some (fetch_batches c (batches 10 items_to_fetch) s1)))"

subsection \<open>_create_other_parent (lines 242-264)\<close>

definition orphaned_items :: "Work \<Rightarrow> addr list" where
  "orphaned_items s = [item \<leftarrow> values_all s. orphan (obj s item) \<and> id' (obj s item) \<noteq> 0]"

definition other_parent :: HierarchicalWorkItem where
  "other_parent =
     \<lparr>id' = 0, type = ''Other'', state = ''Other'', title = ''Other'',
      icon = ''https://tfsproduks1.visualstudio.com/_apis/wit/workItemIcons/icon_review?color=333333&v=2'',
      root = True, orphan = False, parent_id = 0, parent = None,
      comment_count = 0, story_points = None, summary = None, priority = None,
      description = None, repro_steps = None, acceptance_criteria = None,
      tags = [], url = [], sha = None, author = None, date = None,
      comments = [], children = []\<rparr>"

definition set_parent_id :: "int \<Rightarrow> addr \<Rightarrow> Work \<Rightarrow> Work" where
  "set_parent_id v item s = s\<lparr>heap := (heap s)[item := (obj s item)\<lparr>parent_id := v\<rparr>]\<rparr>"

definition create_other_parent :: "Work \<Rightarrow> Work" where
  "create_other_parent s =
     (if platform s = GITHUB then s
      else (let orphaned = orphaned_items s
            in if orphaned \<noteq> [] then
                 (let (a, s1) = alloc other_parent s;
                      s2 = s1\<lparr>heap := (heap s1)[a := (obj s1 a)\<lparr>children := orphaned\<rparr>]\<rparr>;
                      s3 = s2\<lparr>all := AList.update 0 a (all s2)\<rparr>
                  in fold (set_parent_id 0) orphaned s3)
               else s))"

subsection \<open>get_items_with_details (lines 141-194)\<close>

text \<open>GitHub, line 152: \<open>[self.add(item) for item in items]\<close>.\<close>

fun add_each :: "HierarchicalWorkItem list \<Rightarrow> Work \<Rightarrow> addr list \<times> Work" where
  "add_each [] s = ([], s)"
| "add_each (item # rest) s =
     (let (a, s1) = add item s; (as, s2) = add_each rest s1 in (a # as, s2))"

text \<open>GitHub, lines 153-156: every child of every root item enters the Store.\<close>

definition register_child :: "addr \<Rightarrow> Work \<Rightarrow> Work" where
  "register_child child s =
     s\<lparr>all := AList.update (id' (obj s child)) child (all s),
       item_ids := item_ids s @ [id' (obj s child)]\<rparr>"

definition register_children :: "Work \<Rightarrow> Work" where
  "register_children s =
     fold (\<lambda>root_item st. fold register_child (children (obj st root_item)) st)
       (root_items s) s"

definition populate_github :: "HierarchicalWorkItem list \<Rightarrow> Work \<Rightarrow> Work" where
  "populate_github fetched s =
     (let (roots, s1) = add_each fetched s
      in register_children (s1\<lparr>root_items := roots\<rparr>))"

text \<open>Azure DevOps, lines 158-166.\<close>

definition populate_azure ::
  "Externals \<Rightarrow> HierarchicalWorkItem list \<Rightarrow> Work \<Rightarrow> unit result option" where
  "populate_azure c fetched s =
     (let s1 = s\<lparr>item_ids := map id' fetched\<rparr>
      in case gather_get_item_by_id c (map id' fetched) s1 of
           Inl x \<Rightarrow> Some (Inl x)
         | Inr (_, s2) \<Rightarrow>
             (case fetch_parents c s2 of
                None \<Rightarrow> None
              | Some (Inl x) \<Rightarrow> Some (Inl x)
              | Some (Inr (_, s3)) \<Rightarrow> Some (Inr ((), create_other_parent s3))))"

text \<open>
  Lines 168-174: the summarisation pass. The coroutines are created for the items that
  pass the filter of line 172, then gathered: as above, every task runs, in list order
  here, and the first exception is raised.
\<close>

definition summary_candidates :: "Work \<Rightarrow> addr list" where
  "summary_candidates s =
     [item \<leftarrow> values_all s.
        id' (obj s item) \<in> set (item_ids s) \<and> lower (type (obj s item)) \<noteq> ''commit'']"

fun gather_summarize_work_item :: "Externals \<Rightarrow> addr list \<Rightarrow> Work \<Rightarrow> addr list result" where
  "gather_summarize_work_item c [] s = Inr ([], s)"
| "gather_summarize_work_item c (item # rest) s =
     (case summarize_work_item c item s of
        Inl (e, s1) \<Rightarrow> Inl (e, state_of (gather_summarize_work_item c rest s1))
      | Inr (a, s1) \<Rightarrow>
          (case gather_summarize_work_item c rest s1 of
             Inl x \<Rightarrow> Inl x
           | Inr (as, s2) \<Rightarrow> Inr (a # as, s2)))"

definition summarize_pass :: "Externals \<Rightarrow> Work \<Rightarrow> unit result" where
  "summarize_pass c s =
     (if item_summary s then
        (case gather_summarize_work_item c (summary_candidates s) s of
           Inl x \<Rightarrow> Inl x
         | Inr (_, s1) \<Rightarrow> Inr ((), s1))
      else Inr ((), s))"

text \<open>Lines 176-186: root items and groups.\<close>

definition group_of_root :: "Work \<Rightarrow> addr \<Rightarrow> WorkItemGroup" where
  "group_of_root s root_item =
     \<lparr>group_type = type (obj s root_item), group_icon = icon (obj s root_item),
      items = children (obj s root_item)\<rparr>"

definition build_groups :: "Externals \<Rightarrow> Work \<Rightarrow> unit result" where
  "build_groups c s =
     (if platform s = AZURE_DEVOPS then
        (case Hierarchy c (heap s) (all s) of
           Inl e \<Rightarrow> Inl (e, s)
         | Inr (h, roots, groups) \<Rightarrow>
             Inr ((), s\<lparr>heap := h, root_items := roots, by_type := groups\<rparr>))
      else Inr ((), s\<lparr>by_type := map (group_of_root s) (root_items s)\<rparr>))"

definition get_items_with_details :: "Externals \<Rightarrow> Work \<Rightarrow> addr list result option" where
  "get_items_with_details c s =
     (case get_work_items_with_details c (length (heap s)) of
        Inl e \<Rightarrow> Some (Inl (e, s))
      | Inr (created, fetched) \<Rightarrow>
          (case (if platform s = GITHUB
                 then Some (Inr ((), populate_github fetched (s\<lparr>heap := heap s @ created\<rparr>)))
                 else populate_azure c fetched (s\<lparr>heap := heap s @ created\<rparr>)) of
             None \<Rightarrow> None
           | Some (Inl x) \<Rightarrow> Some (Inl x)
           | Some (Inr (_, s1)) \<Rightarrow>
               (case summarize_pass c s1 of
                  Inl x \<Rightarrow> Some (Inl x)
                | Inr (_, s2) \<Rightarrow>
                    (case build_groups c s2 of
                       Inl x \<Rightarrow> Some (Inl x)
                     | Inr (_, s3) \<Rightarrow> Some (Inr (root_items s3, s3))))))"

subsection \<open>_convert_commit_to_work_item (lines 196-219)\<close>

definition commit_icon :: string where
  "commit_icon =
     ''https://raw.githubusercontent.com/Hankanman/Changelog-Weaver/refs/heads/main/assets/commit-icon.svg''"

definition convert_commit_to_work_item :: "Externals \<Rightarrow> CommitInfo \<Rightarrow> HierarchicalWorkItem" where
  "convert_commit_to_work_item c commit =
     \<lparr>id' = py_hash c (commit_sha commit), type = ''Commit'', state = ''N/A'',
      title = message commit, icon = commit_icon, root = False, orphan = True,
      parent_id = 0, parent = None, comment_count = 0, story_points = None,
      summary = None, priority = None, description = None, repro_steps = None,
      acceptance_criteria = None, tags = [], url = commit_url commit,
      sha = Some (commit_sha commit), author = Some (commit_author commit),
      date = Some (commit_date commit), comments = [], children = []\<rparr>"

subsection \<open>generate_ordered_work_items (lines 266-298)\<close>

fun alloc_each :: "HierarchicalWorkItem list \<Rightarrow> Work \<Rightarrow> addr list \<times> Work" where
  "alloc_each [] s = ([], s)"
| "alloc_each (x # xs) s =
     (let (a, s1) = alloc x s; (as, s2) = alloc_each xs s1 in (a # as, s2))"

text \<open>Lines 279-294: the commits.\<close>

definition append_commits :: "Externals \<Rightarrow> Work \<Rightarrow> WorkItemGroup list result" where
  "append_commits c s =
     (if include_commits s \<and> \<not> (\<exists>group \<in> set (by_type s). group_type group = ''Commit'')
      then (case get_commits c of
              Inl e \<Rightarrow> Inl (e, s)
            | Inr commits \<Rightarrow>
                (let (commit_items, s1) =
                       alloc_each (map (convert_commit_to_work_item c) commits) s;
                     commits_group =
                       \<lparr>group_type = ''Commit'', group_icon = commit_icon,
                        items = commit_items\<rparr>;
                     s2 = s1\<lparr>by_type := by_type s1 @ [commits_group]\<rparr>
                 in Inr (by_type s2, s2)))
      else Inr (by_type s, s))"

definition generate_ordered_work_items ::
  "Externals \<Rightarrow> Work \<Rightarrow> WorkItemGroup list result option" where
  "generate_ordered_work_items c s =
     (case (if by_type s = [] then get_items_with_details c s else Some (Inr ([], s))) of
        None \<Rightarrow> None
      | Some (Inl x) \<Rightarrow> Some (Inl x)
      | Some (Inr (_, s1)) \<Rightarrow> Some (append_commits c s1))"

section \<open>The hierarchy builder\<close>

text \<open>
  Modelled from the spec: \<open>utilities.Hierarchy\<close> is not among the files at hand. The
  spec (4.4, and the scenario of section 8) describes what it yields from the Store:
  the root items, "items with root = true or whose parent is the orphan bucket", in
  Store order; the child list of every item, built during the traversal (the bucket
  keeps the children that the orphan step gave it); and the groups, "one per distinct
  type value observed among roots, each carrying that type's icon and the ordered list
  of that type's root-level items", in first-seen order of the types, built in a single
  traversal of the roots.
\<close>

definition hierarchy_roots :: "HierarchicalWorkItem list \<Rightarrow> (int \<times> addr) list \<Rightarrow> addr list" where
  "hierarchy_roots h al =
     [a \<leftarrow> map snd al. root (h ! a) \<or> (parent_id (h ! a) = 0 \<and> map_of al 0 \<noteq> None)]"

definition attach_children ::
  "HierarchicalWorkItem list \<Rightarrow> (int \<times> addr) list \<Rightarrow> HierarchicalWorkItem list" where
  "attach_children h al =
     map (\<lambda>a. if a \<in> set (map snd al) \<and> id' (h ! a) \<noteq> 0
              then (h ! a)\<lparr>children := [b \<leftarrow> map snd al. parent_id (h ! b) = id' (h ! a)]\<rparr>
              else h ! a)
       [0..<length h]"

fun group_insert ::
  "HierarchicalWorkItem list \<Rightarrow> addr \<Rightarrow> WorkItemGroup list \<Rightarrow> WorkItemGroup list" where
  "group_insert h a [] =
     [\<lparr>group_type = type (h ! a), group_icon = icon (h ! a), items = [a]\<rparr>]"
| "group_insert h a (g # gs) =
     (if group_type g = type (h ! a) then g\<lparr>items := items g @ [a]\<rparr> # gs
      else g # group_insert h a gs)"

definition hierarchy_groups :: "HierarchicalWorkItem list \<Rightarrow> addr list \<Rightarrow> WorkItemGroup list" where
  "hierarchy_groups h roots = fold (group_insert h) roots []"

definition Hierarchy_spec ::
  "HierarchicalWorkItem list \<Rightarrow> (int \<times> addr) list
     \<Rightarrow> error + (HierarchicalWorkItem list \<times> addr list \<times> WorkItemGroup list)" where
  "Hierarchy_spec h al =
     Inr (attach_children h al, hierarchy_roots h al,
          hierarchy_groups h (hierarchy_roots h al))"

text \<open>The types of a list of items in first-seen order, each once.\<close>

fun first_seen :: "'a list \<Rightarrow> 'a list \<Rightarrow> 'a list" where
  "first_seen seen [] = []"
| "first_seen seen (x # xs) =
     (if x \<in> set seen then first_seen seen xs else x # first_seen (x # seen) xs)"

section \<open>Well-formed states\<close>

text \<open>Every reference held by the Store points to an object of the heap.\<close>

definition store_allocated :: "Work \<Rightarrow> bool" where
  "store_allocated s = (\<forall>a \<in> set (values_all s). a < length (heap s))"

text \<open>The Store is closed under the parent reference.\<close>

definition parents_closed :: "Work \<Rightarrow> bool" where
  "parents_closed s =
     (\<forall>a \<in> set (values_all s). parent_id (obj s a) \<noteq> 0 \<longrightarrow> parent_id (obj s a) \<in> keys s)"

text \<open>
  Every fetch issued between the states \<open>s\<close> and \<open>s'\<close> succeeded, with an item that
  carries the requested identity. Nothing is asked of fetches that were not issued.
\<close>

definition fetches_faithful :: "Externals \<Rightarrow> Work \<Rightarrow> Work \<Rightarrow> bool" where
  "fetches_faithful c s s' =
     (\<forall>n. length (fetch_log s) \<le> n \<and> n < length (fetch_log s') \<longrightarrow>
          (\<exists>w. get_work_item_by_id c n (fetch_log s' ! n) = Inr w \<and> id' w = fetch_log s' ! n))"

text \<open>The parent of an item is absent (0) or a key of the Store.\<close>

definition parent_ok :: "Work \<Rightarrow> addr \<Rightarrow> bool" where
  "parent_ok s a = (parent_id (obj s a) = 0 \<or> parent_id (obj s a) \<in> keys s)"

text \<open>
  Invariant of the scan of \<open>_fetch_parents\<close>: every stored item outside \<open>R\<close> (the
  items the scan has yet to visit) has its parent resolved.
\<close>

definition resolved_except :: "addr set \<Rightarrow> Work \<Rightarrow> bool" where
  "resolved_except R s =
     (store_allocated s \<and> (\<forall>a \<in> set (values_all s). a \<notin> R \<longrightarrow> parent_ok s a))"

text \<open>The Store and the heap only grow from \<open>s\<close> to \<open>s'\<close>; objects of \<open>s\<close> keep their fields.\<close>

definition grows :: "Work \<Rightarrow> Work \<Rightarrow> bool" where
  "grows s s' =
     (length (heap s) \<le> length (heap s') \<and> (\<forall>a < length (heap s). obj s' a = obj s a)
      \<and> keys s \<subseteq> keys s' \<and> set (values_all s) \<subseteq> set (values_all s')
      \<and> platform s' = platform s)"

text \<open>
  The fetches a call issued, read off the log; the error of the first of them that
  failed, if any (the fetches are numbered from \<open>n\<close>); and the fail-fast property of a
  call: it raises exactly when a fetch it issued failed, and the error it raises is that
  of the first fetch that failed.
\<close>

definition issued_fetches :: "Work \<Rightarrow> 'a result \<Rightarrow> int list" where
  "issued_fetches s r = drop (length (fetch_log s)) (fetch_log (state_of r))"

fun first_failure :: "Externals \<Rightarrow> nat \<Rightarrow> int list \<Rightarrow> error option" where
  "first_failure c n [] = None"
| "first_failure c n (k # ks) =
     (case get_work_item_by_id c n k of
        Inl e \<Rightarrow> Some e
      | Inr w \<Rightarrow> first_failure c (Suc n) ks)"

definition fail_fast :: "Externals \<Rightarrow> Work \<Rightarrow> 'a result \<Rightarrow> bool" where
  "fail_fast c s r =
     (fetch_log (state_of r) = fetch_log s @ issued_fetches s r
      \<and> (case first_failure c (length (fetch_log s)) (issued_fetches s r) of
           None \<Rightarrow> (\<exists>x s'. r = Inr (x, s'))
         | Some e \<Rightarrow> (\<exists>s'. r = Inl (e, s'))))"

text \<open>
  The configuration of a Work object is read, never written: two states with the same
  configuration, and a call that keeps it.
\<close>

definition same_config :: "Work \<Rightarrow> Work \<Rightarrow> bool" where
  "same_config s s' =
     (platform s' = platform s \<and> item_summary s' = item_summary s
      \<and> include_commits s' = include_commits s \<and> item_prompt s' = item_prompt s)"

definition keeps_config :: "Work \<Rightarrow> 'a result \<Rightarrow> bool" where
  "keeps_config s r = same_config s (state_of r)"

section \<open>Concrete inputs\<close>

text \<open>\<open>Work.__init__\<close> (lines 31-38): an empty Store.\<close>

definition init_work :: "Platform \<Rightarrow> bool \<Rightarrow> bool \<Rightarrow> Work" where
  "init_work p summaries commits =
     \<lparr>platform = p, item_summary = summaries, include_commits = commits,
      item_prompt = ''Summarise'', heap = [], all = [], root_items = [], by_type = [],
      item_ids = [], fetch_log = []\<rparr>"

text \<open>A flat work item with the given identity, type, parent identity and orphan flag.\<close>

definition sample_item :: "int \<Rightarrow> string \<Rightarrow> int \<Rightarrow> bool \<Rightarrow> WorkItem" where
  "sample_item i t p orph =
     \<lparr>id' = i, type = t, state = ''Closed'', title = ''An item'', icon = ''icon'',
      root = (p = 0 \<and> \<not> orph), orphan = orph, parent_id = p, parent = None,
      comment_count = 0, story_points = None, summary = None, priority = None,
      description = None, repro_steps = None, acceptance_criteria = None,
      tags = [], url = [], sha = None, author = None, date = None, comments = []\<rparr>"

text \<open>
  A client whose items form the chain 1, 2, 3: item 1 has parent 2, item 2 has parent 3,
  every other item has no parent; the first fetch returns item 1 alone. Every fetch
  succeeds, at any moment.
\<close>

definition chain_client :: Externals where
  "chain_client =
     \<lparr>get_work_item_by_id =
        (\<lambda>n k. Inr (sample_item k ''Task'' (if k = 1 then 2 else if k = 2 then 3 else 0) False)),
      get_work_items_with_details =
        (\<lambda>n. Inr ([], [hierarchical (sample_item 1 ''Task'' 2 False)])),
      get_commits = Inr [],
      summarise = (\<lambda>p. Inr p),
      Hierarchy = Hierarchy_spec,
      py_hash = (\<lambda>t. int (length t)),
      py_repr = concat\<rparr>"

text \<open>A Store that holds item 1 alone, whose parent 2 is absent.\<close>

definition dangling_store :: "Platform \<Rightarrow> Work" where
  "dangling_store p =
     (init_work p True True)
       \<lparr>heap := [hierarchical (sample_item 1 ''Task'' 2 False)], all := [(1, 0)]\<rparr>"

text \<open>
  The orphan scenario of the spec (section 8): items 5 and 6 are orphans, item 7 has the
  absent parent 3.
\<close>

definition orphan_store :: Work where
  "orphan_store =
     (init_work AZURE_DEVOPS True True)
       \<lparr>heap := [hierarchical (sample_item 5 ''Bug'' 0 True),
                 hierarchical (sample_item 6 ''Task'' 0 True),
                 hierarchical (sample_item 7 ''Task'' 3 False)],
        all := [(5, 0), (6, 1), (7, 2)]\<rparr>"

text \<open>A summariser that always raises.\<close>

definition failing_summariser :: Externals where
  "failing_summariser = chain_client\<lparr>summarise := (\<lambda>p. Inl (Raised ''model unavailable''))\<rparr>"

text \<open>A Store with an item of type "COMMIT" and an item of type "Bug".\<close>

definition commit_store :: Work where
  "commit_store =
     (init_work GITHUB True True)
       \<lparr>heap := [hierarchical (sample_item 9 ''COMMIT'' 0 False),
                 hierarchical (sample_item 4 ''Bug'' 0 False)],
        all := [(9, 0), (4, 1)], item_ids := [9, 4]\<rparr>"

text \<open>
  The state that the chain client leaves after the Azure DevOps population of the Store
  (items 2 and 3 were fetched as parents), and the state after the summarisation pass.
\<close>

definition resolved_chain :: Work where
  "resolved_chain =
     (init_work AZURE_DEVOPS True True)
       \<lparr>heap := [hierarchical (sample_item 1 ''Task'' 2 False),
                 hierarchical (sample_item 2 ''Task'' 3 False),
                 hierarchical (sample_item 3 ''Task'' 0 False)],
        all := [(1, 0), (2, 1), (3, 2)],
        item_ids := [1],
        fetch_log := [1, 2, 3, 3, 2]\<rparr>"

definition summarized_chain :: Work where
  "summarized_chain =
     resolved_chain
       \<lparr>heap := [(hierarchical (sample_item 1 ''Task'' 2 False))
                   \<lparr>summary := Some ''Summarise: An item item type: Task None ''\<rparr>,
                 hierarchical (sample_item 2 ''Task'' 3 False),
                 hierarchical (sample_item 3 ''Task'' 0 False)]\<rparr>"

text \<open>
  A client that knows the items 1, 2 and 3 of the chain and no other item: a fetch of
  any other identity raises.
\<close>

definition known_chain_client :: Externals where
  "known_chain_client =
     chain_client
       \<lparr>get_work_item_by_id :=
          (\<lambda>n k. if k = 1 \<or> k = 2 \<or> k = 3
                  then Inr (sample_item k ''Task'' (if k = 1 then 2 else if k = 2 then 3 else 0)
                         False)
                  else Inl (Raised ''not found''))\<rparr>"

text \<open>
  A client of the chain whose fourth fetch (the fetches are numbered from 0) times out:
  in a run from an empty Store that is the first fetch of the batch of line 238, a
  second fetch of item 3. The state after the first fetch of the run, and the state in
  which the run ends: the second fetch of the batch, of item 2, was still issued.
\<close>

definition timeout_client :: Externals where
  "timeout_client =
     chain_client
       \<lparr>get_work_item_by_id :=
          (\<lambda>n k. if n = 3 then Inl (Raised ''timeout'')
                  else Inr (sample_item k ''Task'' (if k = 1 then 2 else if k = 2 then 3 else 0)
                         False))\<rparr>"

definition fetched_one :: Work where
  "fetched_one =
     (init_work AZURE_DEVOPS True True)
       \<lparr>heap := [hierarchical (sample_item 1 ''Task'' 2 False)], all := [(1, 0)],
        item_ids := [1], fetch_log := [1]\<rparr>"

definition timed_out :: Work where
  "timed_out =
     fetched_one
       \<lparr>heap := [hierarchical (sample_item 1 ''Task'' 2 False),
                 hierarchical (sample_item 2 ''Task'' 3 False),
                 hierarchical (sample_item 3 ''Task'' 0 False)],
        all := [(1, 0), (2, 1), (3, 2)],
        fetch_log := [1, 2, 3, 3, 2]\<rparr>"

text \<open>A commit, a client that returns it, and a state whose groups are computed.\<close>

definition sample_commit :: CommitInfo where
  "sample_commit =
     \<lparr>commit_sha = ''abc123'', message = ''Fix crash'', commit_author = ''dev'',
      commit_date = ''2024-01-01'', commit_url = ''https://example.org/c/abc123''\<rparr>"

definition commit_client :: Externals where
  "commit_client = chain_client\<lparr>get_commits := Inr [sample_commit]\<rparr>"

definition grouped_store :: Work where
  "grouped_store =
     (init_work GITHUB False True)
       \<lparr>by_type := [\<lparr>group_type = ''Bug'', group_icon = ''icon'', items = []\<rparr>]\<rparr>"

definition commits_merged :: Work where
  "commits_merged =
     grouped_store
       \<lparr>heap := [convert_commit_to_work_item commit_client sample_commit],
        by_type := [\<lparr>group_type = ''Bug'', group_icon = ''icon'', items = []\<rparr>,
                    \<lparr>group_type = ''Commit'', group_icon = commit_icon, items = [0]\<rparr>]\<rparr>"

text \<open>
  A GitHub client that returns three root items of types Bug, Bug and Feature, the first
  with one child, and the state that \<open>get_items_with_details\<close> reaches with it.
\<close>

definition github_client :: Externals where
  "github_client =
     chain_client
       \<lparr>get_work_items_with_details :=
          (\<lambda>n. Inr ([hierarchical (sample_item 10 ''Issue'' 1 False)],
                    [(hierarchical (sample_item 1 ''Bug'' 0 False))\<lparr>children := [n]\<rparr>,
                     hierarchical (sample_item 2 ''Bug'' 0 False),
                     hierarchical (sample_item 3 ''Feature'' 0 False)]))\<rparr>"

definition github_result :: Work where
  "github_result =
     (init_work GITHUB False False)
       \<lparr>heap := [hierarchical (sample_item 10 ''Issue'' 1 False),
                 (hierarchical (sample_item 1 ''Bug'' 0 False))\<lparr>children := [0]\<rparr>,
                 hierarchical (sample_item 2 ''Bug'' 0 False),
                 hierarchical (sample_item 3 ''Feature'' 0 False)],
        all := [(1, 1), (2, 2), (3, 3), (10, 0)],
        root_items := [1, 2, 3],
        by_type := [\<lparr>group_type = ''Bug'', group_icon = ''icon'', items = [0]\<rparr>,
                    \<lparr>group_type = ''Bug'', group_icon = ''icon'', items = []\<rparr>,
                    \<lparr>group_type = ''Feature'', group_icon = ''icon'', items = []\<rparr>],
        item_ids := [10]\<rparr>"

text \<open>An Azure DevOps Store of three root items of types Bug, Bug and Feature.\<close>

definition three_roots :: Work where
  "three_roots =
     (init_work AZURE_DEVOPS False False)
       \<lparr>heap := [hierarchical (sample_item 1 ''Bug'' 0 False),
                 hierarchical (sample_item 2 ''Bug'' 0 False),
                 hierarchical (sample_item 3 ''Feature'' 0 False)],
        all := [(1, 0), (2, 1), (3, 2)]\<rparr>"

definition three_roots_grouped :: Work where
  "three_roots_grouped =
     three_roots
       \<lparr>root_items := [0, 1, 2],
        by_type := [\<lparr>group_type = ''Bug'', group_icon = ''icon'', items = [0, 1]\<rparr>,
                    \<lparr>group_type = ''Feature'', group_icon = ''icon'', items = [2]\<rparr>]\<rparr>"

text \<open>
  An Azure DevOps client with three items of types Bug, Bug and Feature, none with a
  parent, and the states that \<open>get_items_with_details\<close> goes through with it.
\<close>

definition azure_three_client :: Externals where
  "azure_three_client =
     chain_client
       \<lparr>get_work_item_by_id :=
          (\<lambda>n k. Inr (sample_item k (if k = 3 then ''Feature'' else ''Bug'') 0 False)),
        get_work_items_with_details :=
          (\<lambda>n. Inr ([], [hierarchical (sample_item 1 ''Bug'' 0 False),
                         hierarchical (sample_item 2 ''Bug'' 0 False),
                         hierarchical (sample_item 3 ''Feature'' 0 False)]))\<rparr>"

definition three_fetched :: Work where
  "three_fetched = three_roots\<lparr>item_ids := [1, 2, 3], fetch_log := [1, 2, 3]\<rparr>"

definition azure_three_result :: Work where
  "azure_three_result =
     three_roots_grouped\<lparr>item_ids := [1, 2, 3], fetch_log := [1, 2, 3]\<rparr>"

section \<open>The Store: add\<close>

lemma keys_map_of: "k \<notin> keys s \<longleftrightarrow> map_of (all s) k = None"
  by (simp add: keys_def map_of_eq_None_iff)

lemma update_absent: "map_of al k = None \<Longrightarrow> AList.update k v al = al @ [(k, v)]"
  by (induction al) (auto split: if_splits)

lemma add_absent:
  "map_of (all s) (id' p) = None \<Longrightarrow>
   add p s = (length (heap s),
              s\<lparr>heap := heap s @ [p], all := AList.update (id' p) (length (heap s)) (all s)\<rparr>)"
  by (simp add: add_def alloc_def)

lemma add_present:
  "map_of (all s) (id' p) = Some a \<Longrightarrow> add p s = (a, s)"
  by (simp add: add_def)

text \<open>
  C2. Two calls of \<open>add\<close> with payloads \<open>p1\<close> and \<open>p2\<close> of the same identity \<open>k\<close>:
  the second call changes nothing and returns the entry that the first call returned,
  which is the entry of \<open>k\<close> in the Store; when \<open>k\<close> was absent before the first call,
  that entry is the object created from \<open>p1\<close>.
\<close>

theorem add_twice_keeps_first:
  assumes "id' p1 = k" and "id' p2 = k"
    and "add p1 s = (a1, s1)" and "add p2 s1 = (a2, s2)"
  shows "s2 = s1 \<and> a2 = a1 \<and> map_of (all s2) k = Some a1
         \<and> (k \<notin> keys s \<longrightarrow> obj s2 a1 = p1)"
proof (cases "map_of (all s) k")
  case None
  with assms(1) have "add p1 s =
      (length (heap s),
       s\<lparr>heap := heap s @ [p1], all := AList.update k (length (heap s)) (all s)\<rparr>)"
    using add_absent [of s p1] by simp
  with assms(3) have a1: "a1 = length (heap s)"
    and s1: "s1 = s\<lparr>heap := heap s @ [p1], all := AList.update k (length (heap s)) (all s)\<rparr>"
    by auto
  have look: "map_of (all s1) k = Some a1"
    by (simp add: s1 a1 update_conv')
  with assms(2,4) have "a2 = a1 \<and> s2 = s1"
    using add_present [of s1 p2 a1] by simp
  moreover have "obj s1 a1 = p1"
    by (simp add: obj_def s1 a1)
  ultimately show ?thesis using look by simp
next
  case (Some a)
  with assms(1,3) have "a1 = a \<and> s1 = s"
    using add_present [of s p1 a] by simp
  moreover from this Some assms(2,4) have "a2 = a \<and> s2 = s"
    using add_present [of s p2 a] by simp
  ultimately show ?thesis using Some by (simp add: keys_map_of)
qed

theorem add_twice_keeps_first_witness:
  "id' (hierarchical (sample_item 7 ''Bug'' 0 False)) = 7
   \<and> id' (hierarchical (sample_item 7 ''Feature'' 0 False)) = 7
   \<and> 7 \<notin> keys (init_work AZURE_DEVOPS True True)
   \<and> add (hierarchical (sample_item 7 ''Feature'' 0 False))
           (snd (add (hierarchical (sample_item 7 ''Bug'' 0 False))
                     (init_work AZURE_DEVOPS True True)))
       = add (hierarchical (sample_item 7 ''Bug'' 0 False)) (init_work AZURE_DEVOPS True True)
   \<and> type (obj (snd (add (hierarchical (sample_item 7 ''Feature'' 0 False))
                      (snd (add (hierarchical (sample_item 7 ''Bug'' 0 False))
                                (init_work AZURE_DEVOPS True True)))))
                (fst (add (hierarchical (sample_item 7 ''Bug'' 0 False))
                          (init_work AZURE_DEVOPS True True)))) = ''Bug''"
proof -
  let ?p1 = "hierarchical (sample_item 7 ''Bug'' 0 False)"
  let ?p2 = "hierarchical (sample_item 7 ''Feature'' 0 False)"
  let ?s = "init_work AZURE_DEVOPS True True"
  have h1: "id' ?p1 = 7" and h2: "id' ?p2 = 7"
    by (simp_all add: hierarchical_def sample_item_def)
  have h3: "add ?p1 ?s = (fst (add ?p1 ?s), snd (add ?p1 ?s))" by simp
  have h4: "add ?p2 (snd (add ?p1 ?s)) =
      (fst (add ?p2 (snd (add ?p1 ?s))), snd (add ?p2 (snd (add ?p1 ?s))))" by simp
  have h5: "7 \<notin> keys ?s" by (simp add: keys_def init_work_def)
  have p1: "type ?p1 = ''Bug''" by (simp add: hierarchical_def sample_item_def)
  from add_twice_keeps_first [OF h1 h2 h3 h4] h5
  have r: "snd (add ?p2 (snd (add ?p1 ?s))) = snd (add ?p1 ?s)
      \<and> fst (add ?p2 (snd (add ?p1 ?s))) = fst (add ?p1 ?s)
      \<and> obj (snd (add ?p2 (snd (add ?p1 ?s)))) (fst (add ?p1 ?s)) = ?p1"
    by blast
  from r have "obj (snd (add ?p2 (snd (add ?p1 ?s)))) (fst (add ?p1 ?s)) = ?p1"
    by (rule conjunct2 [THEN conjunct2])
  then have "type (obj (snd (add ?p2 (snd (add ?p1 ?s)))) (fst (add ?p1 ?s))) = type ?p1"
    by (rule arg_cong)
  then have t: "type (obj (snd (add ?p2 (snd (add ?p1 ?s)))) (fst (add ?p1 ?s))) = ''Bug''"
    using p1 by (rule trans)
  from r have e: "add ?p2 (snd (add ?p1 ?s)) = add ?p1 ?s"
    by (simp add: prod_eq_iff)
  from h1 h2 h5 e t show ?thesis by (intro conjI)
qed

section \<open>The commit adapter\<close>

text \<open>
  C9. The item built from a commit has the hash of the commit's sha as identity (the
  identity is a function of the sha string alone), type "Commit", the commit message as
  title, state "N/A", root false, orphan true and no children.
\<close>

theorem convert_commit_fields:
  "id' (convert_commit_to_work_item c commit) = py_hash c (commit_sha commit)
   \<and> type (convert_commit_to_work_item c commit) = ''Commit''
   \<and> title (convert_commit_to_work_item c commit) = message commit
   \<and> state (convert_commit_to_work_item c commit) = ''N/A''
   \<and> root (convert_commit_to_work_item c commit) = False
   \<and> orphan (convert_commit_to_work_item c commit) = True
   \<and> children (convert_commit_to_work_item c commit) = []"
  by (simp add: convert_commit_to_work_item_def)

section \<open>Fetches and the log\<close>

lemma first_failure_append:
  "first_failure c n (xs @ ys) =
     (case first_failure c n xs of
        Some e \<Rightarrow> Some e
      | None \<Rightarrow> first_failure c (n + length xs) ys)"
  by (induction xs arbitrary: n) (auto split: sum.splits option.splits)

lemma fail_fastI:
  assumes "fetch_log (state_of r) = fetch_log s @ new"
    and "case first_failure c (length (fetch_log s)) new of
           None \<Rightarrow> (\<exists>x s'. r = Inr (x, s'))
         | Some e \<Rightarrow> (\<exists>s'. r = Inl (e, s'))"
  shows "fail_fast c s r"
  using assms by (simp add: fail_fast_def issued_fetches_def)

lemma fail_fast_log:
  "fail_fast c s r \<Longrightarrow> fetch_log (state_of r) = fetch_log s @ issued_fetches s r"
  by (simp add: fail_fast_def)

lemma fail_fast_return: "fail_fast c s (Inr (x, s))"
  by (rule fail_fastI [where new = "[]"]) (simp_all add: state_of_def)

lemma fail_fast_raised:
  assumes "fail_fast c s (Inl (e, s1) :: 'a result)"
  shows "first_failure c (length (fetch_log s)) (issued_fetches s (Inl (e, s1) :: 'a result)) = Some e"
  using assms by (auto simp: fail_fast_def split: option.splits)

lemma fail_fast_returned:
  assumes "fail_fast c s (Inr (x, s1))"
  shows "first_failure c (length (fetch_log s)) (issued_fetches s (Inr (x, s1))) = None"
  using assms by (auto simp: fail_fast_def split: option.splits)

lemma issued_fetches_cong:
  "state_of r = state_of r' \<Longrightarrow> issued_fetches s r = issued_fetches s r'"
  by (simp add: issued_fetches_def)

lemma fail_fast_bind:
  assumes 1: "fail_fast c s r1"
    and 2: "\<And>x s1. r1 = Inr (x, s1) \<Longrightarrow> fail_fast c s1 (f x s1)"
  shows "fail_fast c s (case r1 of Inl x \<Rightarrow> Inl x | Inr (x, s1) \<Rightarrow> f x s1)"
proof (cases r1)
  case (Inl x)
  obtain e s' where x: "x = (e, s')" by (cases x)
  from 1 Inl x have "fail_fast c s (Inl (e, s') :: 'b result)"
    by (auto simp: fail_fast_def issued_fetches_def state_of_def split: option.splits)
  with Inl x show ?thesis by simp
next
  case (Inr y)
  obtain x s1 where y: "y = (x, s1)" by (cases y)
  let ?n1 = "issued_fetches s r1" and ?n2 = "issued_fetches s1 (f x s1)"
  from fail_fast_log [OF 1] Inr y have l1: "fetch_log s1 = fetch_log s @ ?n1"
    by (simp add: state_of_def)
  from 1 Inr y have ok1: "first_failure c (length (fetch_log s)) ?n1 = None"
    by (auto simp: fail_fast_def split: option.splits)
  from 2 [OF Inr [unfolded y]] have ff2: "fail_fast c s1 (f x s1)" .
  have "fail_fast c s (f x s1)"
  proof (rule fail_fastI [where new = "?n1 @ ?n2"])
    show "fetch_log (state_of (f x s1)) = fetch_log s @ ?n1 @ ?n2"
      using l1 fail_fast_log [OF ff2] by simp
  next
    have "first_failure c (length (fetch_log s)) (?n1 @ ?n2)
        = first_failure c (length (fetch_log s1)) ?n2"
      by (simp add: first_failure_append ok1 l1)
    with ff2 show "case first_failure c (length (fetch_log s)) (?n1 @ ?n2) of
           None \<Rightarrow> (\<exists>x' s'. f x s1 = Inr (x', s'))
         | Some e \<Rightarrow> (\<exists>s'. f x s1 = Inl (e, s'))"
      by (simp add: fail_fast_def)
  qed
  with Inr y show ?thesis by simp
qed

text \<open>A call that raised, followed by calls whose errors are dropped: the first error stands.\<close>

lemma fail_fast_raise_late:
  assumes 1: "fail_fast c s (Inl (e, s1) :: 'a result)"
    and 2: "fail_fast c s1 (r2 :: 'b result)"
  shows "fail_fast c s (Inl (e, state_of r2) :: 'd result)"
proof -
  let ?n1 = "issued_fetches s (Inl (e, s1) :: 'a result)" and ?n2 = "issued_fetches s1 r2"
  from fail_fast_log [OF 1] have l1: "fetch_log s1 = fetch_log s @ ?n1"
    by (simp add: state_of_def)
  have f1: "first_failure c (length (fetch_log s)) ?n1 = Some e"
    using 1 by (rule fail_fast_raised)
  show ?thesis
  proof (rule fail_fastI [where new = "?n1 @ ?n2"])
    show "fetch_log (state_of (Inl (e, state_of r2) :: 'd result)) = fetch_log s @ ?n1 @ ?n2"
      using l1 fail_fast_log [OF 2] by (simp add: state_of_def)
  next
    show "case first_failure c (length (fetch_log s)) (?n1 @ ?n2) of
           None \<Rightarrow> (\<exists>x s'. (Inl (e, state_of r2) :: 'd result) = Inr (x, s'))
         | Some e' \<Rightarrow> (\<exists>s'. (Inl (e, state_of r2) :: 'd result) = Inl (e', s'))"
      by (simp add: first_failure_append f1)
  qed
qed

lemma fetch_log_add: "fetch_log (snd (add p s)) = fetch_log s"
  by (simp add: add_def alloc_def split: option.splits)

lemma get_item_by_id_Inl:
  "get_work_item_by_id c (length (fetch_log s)) k = Inl e
   \<Longrightarrow> get_item_by_id c k s = Inl (e, s\<lparr>fetch_log := fetch_log s @ [k]\<rparr>)"
  by (simp add: get_item_by_id_def)

lemma get_item_by_id_Inr:
  "get_work_item_by_id c (length (fetch_log s)) k = Inr w
   \<Longrightarrow> get_item_by_id c k s = Inr (add (hierarchical w) (s\<lparr>fetch_log := fetch_log s @ [k]\<rparr>))"
  by (simp add: get_item_by_id_def)

lemma fail_fast_get_item_by_id: "fail_fast c s (get_item_by_id c k s)"
proof (cases "get_work_item_by_id c (length (fetch_log s)) k")
  case (Inl e)
  show ?thesis
    by (rule fail_fastI [where new = "[k]"])
      (simp_all add: get_item_by_id_Inl [OF Inl] state_of_def Inl)
next
  case (Inr w)
  show ?thesis
    using fetch_log_add [of "hierarchical w" "s\<lparr>fetch_log := fetch_log s @ [k]\<rparr>"]
    by (intro fail_fastI [where new = "[k]"])
      (simp_all add: get_item_by_id_Inr [OF Inr] state_of_def Inr case_prod_unfold prod_eq_iff)
qed

lemma fail_fast_gather: "fail_fast c s (gather_get_item_by_id c ks s)"
proof (induction ks arbitrary: s)
  case Nil
  show ?case by (simp add: fail_fast_return)
next
  case (Cons k ks)
  show ?case
  proof (cases "get_item_by_id c k s")
    case (Inl x)
    obtain e s1 where x: "x = (e, s1)" by (cases x)
    from fail_fast_get_item_by_id [of c s k] Inl x
    have "fail_fast c s (Inl (e, s1) :: addr result)" by simp
    from fail_fast_raise_late [OF this Cons.IH [of s1]] Inl x show ?thesis by simp
  next
    case (Inr y)
    have "fail_fast c s
       (case get_item_by_id c k s of
          Inl x \<Rightarrow> Inl x
        | Inr (a, s1) \<Rightarrow>
            (case gather_get_item_by_id c ks s1 of
               Inl x \<Rightarrow> Inl x
             | Inr (as, s2) \<Rightarrow> Inr (a # as, s2)))"
    proof (rule fail_fast_bind [OF fail_fast_get_item_by_id])
      fix a s1
      show "fail_fast c s1 (case gather_get_item_by_id c ks s1 of
               Inl x \<Rightarrow> Inl x
             | Inr (as, s2) \<Rightarrow> Inr (a # as, s2))"
        by (rule fail_fast_bind [OF Cons.IH]) (rule fail_fast_return)
    qed
    with Inr show ?thesis by (simp add: case_prod_unfold)
  qed
qed

lemma fail_fast_fetch_batches: "fail_fast c s (fetch_batches c bs s)"
proof (induction bs arbitrary: s)
  case Nil
  show ?case by (simp add: fail_fast_return)
next
  case (Cons b bs)
  have "fail_fast c s
     (case gather_get_item_by_id c b s of
        Inl x \<Rightarrow> Inl x
      | Inr (as, s1) \<Rightarrow> fetch_batches c bs s1)"
    by (rule fail_fast_bind [OF fail_fast_gather]) (rule Cons.IH)
  then show ?case by (simp add: case_prod_unfold)
qed

lemma fail_fast_walk_parents:
  assumes "walk_parents c0 cur0 tf0 s0 = Some y0"
  shows "fail_fast c0 s0 y0"
proof (rule walk_parents.raw_induct [where P = "\<lambda>c cur tf s y. fail_fast c s y", OF _ assms])
  fix walk c cur tf s y
  assume IH: "\<And>c cur tf s y. walk c cur tf s = Some y \<Longrightarrow> fail_fast c s y"
    and body: "(if parent_id (obj s cur) \<noteq> 0 \<and> parent_id (obj s cur) \<notin> keys s
      then case get_item_by_id c (parent_id (obj s cur)) s of
           Inl x \<Rightarrow> Some (Inl x)
           | Inr (fetched, s1) \<Rightarrow>
               walk c fetched (List.insert (parent_id (obj s cur)) tf) s1
      else Some (Inr (tf, s))) = Some y"
  show "fail_fast c s y"
  proof (cases "parent_id (obj s cur) \<noteq> 0 \<and> parent_id (obj s cur) \<notin> keys s")
    case False
    with body have "y = Inr (tf, s)" by auto
    then show ?thesis by (simp add: fail_fast_return)
  next
    case True
    let ?g = "get_item_by_id c (parent_id (obj s cur)) s"
    let ?f = "\<lambda>fetched s1. case walk c fetched (List.insert (parent_id (obj s cur)) tf) s1 of
                 Some r \<Rightarrow> r | None \<Rightarrow> Inr (tf, s1)"
    have "fail_fast c s (case ?g of Inl x \<Rightarrow> Inl x | Inr (fetched, s1) \<Rightarrow> ?f fetched s1)"
    proof (rule fail_fast_bind [OF fail_fast_get_item_by_id])
      fix fetched s1
      show "fail_fast c s1 (?f fetched s1)"
        by (cases "walk c fetched (List.insert (parent_id (obj s cur)) tf) s1")
          (simp_all add: fail_fast_return IH)
    qed
    moreover from body True
    have "y = (case ?g of Inl x \<Rightarrow> Inl x | Inr (fetched, s1) \<Rightarrow> ?f fetched s1)"
      by (auto split: sum.splits)
    ultimately show ?thesis by simp
  qed
qed

lemma fail_fast_scan_items:
  "scan_items c xs tf s = Some r \<Longrightarrow> fail_fast c s r"
proof (induction xs arbitrary: tf s r)
  case Nil
  then show ?case by (auto simp: fail_fast_return)
next
  case (Cons x xs)
  from Cons.prems obtain r1 where w: "walk_parents c x tf s = Some r1"
    by (auto split: option.splits)
  let ?f = "\<lambda>tf1 s1. case scan_items c xs tf1 s1 of Some r \<Rightarrow> r | None \<Rightarrow> Inr (tf1, s1)"
  have "fail_fast c s (case r1 of Inl x \<Rightarrow> Inl x | Inr (tf1, s1) \<Rightarrow> ?f tf1 s1)"
  proof (rule fail_fast_bind [OF fail_fast_walk_parents [OF w]])
    fix tf1 s1
    show "fail_fast c s1 (?f tf1 s1)"
      by (cases "scan_items c xs tf1 s1") (auto simp: fail_fast_return intro: Cons.IH)
  qed
  moreover from Cons.prems w
  have "r = (case r1 of Inl x \<Rightarrow> Inl x | Inr (tf1, s1) \<Rightarrow> ?f tf1 s1)"
    by (auto split: sum.splits)
  ultimately show ?case by simp
qed

lemma fail_fast_fetch_parents:
  assumes "fetch_parents c s = Some r"
  shows "fail_fast c s r"
proof (cases "platform s \<noteq> AZURE_DEVOPS")
  case True
  with assms show ?thesis by (auto simp: fetch_parents_def fail_fast_return)
next
  case False
  with assms obtain r1 where sc: "scan_items c (values_all s) [] s = Some r1"
    by (auto simp: fetch_parents_def split: option.splits)
  have "fail_fast c s
      (case r1 of Inl x \<Rightarrow> Inl x | Inr (tf, s1) \<Rightarrow> fetch_batches c (batches 10 tf) s1)"
    by (rule fail_fast_bind [OF fail_fast_scan_items [OF sc]]) (rule fail_fast_fetch_batches)
  moreover from assms False sc
  have "r = (case r1 of Inl x \<Rightarrow> Inl x | Inr (tf, s1) \<Rightarrow> fetch_batches c (batches 10 tf) s1)"
    by (auto simp: fetch_parents_def split: sum.splits)
  ultimately show ?thesis by simp
qed

section \<open>Parent resolution\<close>

lemma grows_refl: "grows s s"
  by (simp add: grows_def)

lemma grows_trans: "grows s s1 \<Longrightarrow> grows s1 s2 \<Longrightarrow> grows s s2"
  by (auto simp: grows_def)

lemma get_item_by_id_log:
  "get_item_by_id c k s = r \<Longrightarrow> fetch_log (state_of r) = fetch_log s @ [k]"
  using fetch_log_add [of _ "s\<lparr>fetch_log := fetch_log s @ [k]\<rparr>"]
  by (cases "get_work_item_by_id c (length (fetch_log s)) k")
    (auto simp: get_item_by_id_def state_of_def case_prod_unfold)

lemma get_item_by_id_new:
  assumes "get_work_item_by_id c (length (fetch_log s)) k = Inr w" and "id' w = k"
    and "k \<notin> keys s"
  shows "get_item_by_id c k s =
    Inr (length (heap s),
         s\<lparr>fetch_log := fetch_log s @ [k], heap := heap s @ [hierarchical w],
           all := all s @ [(k, length (heap s))]\<rparr>)"
proof -
  have "map_of (all s) k = None" using assms(3) by (simp add: keys_map_of)
  with assms(1,2) show ?thesis
    by (simp add: get_item_by_id_def add_def alloc_def hierarchical_def update_absent)
qed

lemma get_item_by_id_known:
  assumes "get_work_item_by_id c (length (fetch_log s)) k = Inr w" and "id' w = k"
    and "k \<in> keys s"
  shows "\<exists>a. get_item_by_id c k s = Inr (a, s\<lparr>fetch_log := fetch_log s @ [k]\<rparr>)"
proof -
  from assms(3) obtain a where "map_of (all s) k = Some a"
    using keys_map_of [of k s] by auto
  with assms(1,2) show ?thesis
    by (simp add: get_item_by_id_def add_def hierarchical_def)
qed

lemma faithful_prefix:
  assumes "fetches_faithful c s s'" and "fetch_log s' = fetch_log s1 @ new"
  shows "fetches_faithful c s s1"
  unfolding fetches_faithful_def
proof (intro allI impI)
  fix n assume n: "length (fetch_log s) \<le> n \<and> n < length (fetch_log s1)"
  with assms(2) have "n < length (fetch_log s')" "fetch_log s' ! n = fetch_log s1 ! n"
    by (simp_all add: nth_append)
  with assms(1) n
  show "\<exists>w. get_work_item_by_id c n (fetch_log s1 ! n) = Inr w \<and> id' w = fetch_log s1 ! n"
    by (auto simp: fetches_faithful_def)
qed

lemma faithful_suffix:
  assumes "fetches_faithful c s s'" and "length (fetch_log s) \<le> length (fetch_log s1)"
  shows "fetches_faithful c s1 s'"
  using assms by (auto simp: fetches_faithful_def)

lemma faithful_first:
  assumes "fetches_faithful c s s'" and "fetch_log s' = fetch_log s @ k # new"
  shows "\<exists>w. get_work_item_by_id c (length (fetch_log s)) k = Inr w \<and> id' w = k"
proof -
  from assms(2) have "length (fetch_log s) < length (fetch_log s')"
    and "fetch_log s' ! length (fetch_log s) = k"
    by simp_all
  with assms(1) show ?thesis
    unfolding fetches_faithful_def by (metis order_refl)
qed

lemma walk_parents_resolves:
  assumes "walk_parents c0 cur0 tf0 s0 = Some y0"
  shows "(\<exists>new. fetch_log (state_of y0) = fetch_log s0 @ new)
       \<and> (\<forall>tf' s'. y0 = Inr (tf', s') \<longrightarrow> fetches_faithful c0 s0 s'
           \<longrightarrow> resolved_except (insert cur0 R) s0
           \<longrightarrow> cur0 \<in> set (values_all s0) \<longrightarrow> set tf0 \<subseteq> keys s0 \<longrightarrow> (\<forall>a \<in> R. a < length (heap s0))
           \<longrightarrow> resolved_except R s' \<and> set tf' \<subseteq> keys s' \<and> grows s0 s')"
proof (rule walk_parents.raw_induct [where P = "\<lambda>c cur tf s y.
         (\<exists>new. fetch_log (state_of y) = fetch_log s @ new)
       \<and> (\<forall>tf' s'. y = Inr (tf', s') \<longrightarrow> fetches_faithful c s s'
           \<longrightarrow> resolved_except (insert cur R) s
           \<longrightarrow> cur \<in> set (values_all s) \<longrightarrow> set tf \<subseteq> keys s \<longrightarrow> (\<forall>a \<in> R. a < length (heap s))
           \<longrightarrow> resolved_except R s' \<and> set tf' \<subseteq> keys s' \<and> grows s s')", OF _ assms])
  fix walk c cur tf s y
  assume IH: "\<And>c cur tf s y. walk c cur tf s = Some y \<Longrightarrow>
         (\<exists>new. fetch_log (state_of y) = fetch_log s @ new)
       \<and> (\<forall>tf' s'. y = Inr (tf', s') \<longrightarrow> fetches_faithful c s s'
           \<longrightarrow> resolved_except (insert cur R) s
           \<longrightarrow> cur \<in> set (values_all s) \<longrightarrow> set tf \<subseteq> keys s \<longrightarrow> (\<forall>a \<in> R. a < length (heap s))
           \<longrightarrow> resolved_except R s' \<and> set tf' \<subseteq> keys s' \<and> grows s s')"
    and body: "(if parent_id (obj s cur) \<noteq> 0 \<and> parent_id (obj s cur) \<notin> keys s
      then case get_item_by_id c (parent_id (obj s cur)) s of
           Inl x \<Rightarrow> Some (Inl x)
           | Inr (fetched, s1) \<Rightarrow>
               walk c fetched (List.insert (parent_id (obj s cur)) tf) s1
      else Some (Inr (tf, s))) = Some y"
  let ?p = "parent_id (obj s cur)"
  let ?main = "\<lambda>y. \<forall>tf' s'. y = Inr (tf', s') \<longrightarrow> fetches_faithful c s s'
           \<longrightarrow> resolved_except (insert cur R) s
           \<longrightarrow> cur \<in> set (values_all s) \<longrightarrow> set tf \<subseteq> keys s \<longrightarrow> (\<forall>a \<in> R. a < length (heap s))
           \<longrightarrow> resolved_except R s' \<and> set tf' \<subseteq> keys s' \<and> grows s s'"
  show "(\<exists>new. fetch_log (state_of y) = fetch_log s @ new) \<and> ?main y"
  proof (cases "?p \<noteq> 0 \<and> ?p \<notin> keys s")
    case False
    with body have y: "y = Inr (tf, s)" by auto
    have "fetch_log (state_of y) = fetch_log s @ []" by (simp add: y state_of_def)
    moreover have "?main y"
    proof (intro allI impI)
      fix tf' s'
      assume y': "y = Inr (tf', s')" and inv: "resolved_except (insert cur R) s"
        and tf: "set tf \<subseteq> keys s"
      from y y' have "tf' = tf" "s' = s" by simp_all
      moreover from False have "parent_ok s cur" by (auto simp: parent_ok_def)
      with inv have "resolved_except R s" by (auto simp: resolved_except_def)
      ultimately show "resolved_except R s' \<and> set tf' \<subseteq> keys s' \<and> grows s s'"
        using tf by (simp add: grows_refl)
    qed
    ultimately show ?thesis by blast
  next
    case True
    show ?thesis
    proof (cases "get_item_by_id c ?p s")
      case (Inl x)
      with body True have y: "y = Inl x" by simp
      from get_item_by_id_log [OF Inl] y
      have "fetch_log (state_of y) = fetch_log s @ [?p]" by (simp add: state_of_def)
      with y show ?thesis by blast
    next
      case (Inr z)
      obtain fetched s1 where z: "z = (fetched, s1)" by (cases z)
      from body True Inr z
      have rec: "walk c fetched (List.insert ?p tf) s1 = Some y" by simp
      from get_item_by_id_log [OF Inr] z
      have l1: "fetch_log s1 = fetch_log s @ [?p]" by (simp add: state_of_def)
      from IH [OF rec] obtain new where new: "fetch_log (state_of y) = fetch_log s1 @ new"
        by blast
      with l1 have log: "fetch_log (state_of y) = fetch_log s @ ?p # new" by simp
      have "?main y"
      proof (intro allI impI)
        fix tf' s'
        assume y: "y = Inr (tf', s')" and ff: "fetches_faithful c s s'"
          and inv: "resolved_except (insert cur R) s" and cur: "cur \<in> set (values_all s)"
          and tf: "set tf \<subseteq> keys s" and R: "\<forall>a \<in> R. a < length (heap s)"
        from log y have "fetch_log s' = fetch_log s @ ?p # new" by (simp add: state_of_def)
        from faithful_first [OF ff this] obtain w
          where w: "get_work_item_by_id c (length (fetch_log s)) ?p = Inr w" "id' w = ?p"
          by blast
        define n where "n = length (heap s)"
        from True have "?p \<notin> keys s" by simp
        from get_item_by_id_new [OF w this] Inr z
        have f: "fetched = n"
          and s1: "s1 = s\<lparr>fetch_log := fetch_log s @ [?p], heap := heap s @ [hierarchical w],
             all := all s @ [(?p, length (heap s))]\<rparr>"
          by (simp_all add: n_def)
        from l1 have ff1: "fetches_faithful c s1 s'"
          by (intro faithful_suffix [OF ff]) simp
        have h1: "heap s1 = heap s @ [hierarchical w]" and a1: "all s1 = all s @ [(?p, n)]"
          and p1: "platform s1 = platform s"
          by (simp_all add: s1 n_def)
        have old: "\<And>a. a < n \<Longrightarrow> obj s1 a = obj s a"
          by (simp add: obj_def nth_append h1 n_def)
        have k1: "keys s1 = insert ?p (keys s)" by (simp add: keys_def a1)
        have v1: "set (values_all s1) = insert n (set (values_all s))"
          by (simp add: values_all_def a1)
        have g1: "grows s s1"
          using old k1 v1 p1 by (auto simp: grows_def h1 n_def)
        have alloc1: "store_allocated s1"
          using inv v1 by (auto simp: resolved_except_def store_allocated_def h1 n_def)
        have "\<forall>a \<in> set (values_all s1). a \<notin> insert n R \<longrightarrow> parent_ok s1 a"
        proof (intro ballI impI)
          fix a assume a: "a \<in> set (values_all s1)" and aR: "a \<notin> insert n R"
          with v1 have av: "a \<in> set (values_all s)" by auto
          with inv have alt: "a < n"
            by (simp add: resolved_except_def store_allocated_def n_def)
          show "parent_ok s1 a"
          proof (cases "a = cur")
            case True
            then show ?thesis using old [OF alt] k1 by (simp add: parent_ok_def)
          next
            case False
            with inv av aR have "parent_ok s a" by (auto simp: resolved_except_def)
            then show ?thesis using old [OF alt] k1 by (auto simp: parent_ok_def)
          qed
        qed
        with alloc1 have inv1: "resolved_except (insert n R) s1"
          by (simp add: resolved_except_def)
        have n1: "n \<in> set (values_all s1)" using v1 by simp
        have tf1: "set (List.insert ?p tf) \<subseteq> keys s1" using tf k1 by auto
        have R1: "\<forall>a \<in> R. a < length (heap s1)" using R by (auto simp: h1)
        from IH [OF rec [unfolded f]] y ff1 inv1 n1 tf1 R1
        have "resolved_except R s' \<and> set tf' \<subseteq> keys s' \<and> grows s1 s'" by blast
        then show "resolved_except R s' \<and> set tf' \<subseteq> keys s' \<and> grows s s'"
          using g1 grows_trans by blast
      qed
      with log show ?thesis by blast
    qed
  qed
qed

lemma scan_items_resolves:
  "scan_items c xs tf s = Some (Inr (tf', s')) \<Longrightarrow> fetches_faithful c s s'
   \<Longrightarrow> resolved_except (set xs) s \<Longrightarrow> set xs \<subseteq> set (values_all s) \<Longrightarrow> set tf \<subseteq> keys s
   \<Longrightarrow> resolved_except {} s' \<and> set tf' \<subseteq> keys s' \<and> grows s s'"
proof (induction xs arbitrary: tf s)
  case Nil
  then show ?case by (simp add: grows_refl)
next
  case (Cons x xs)
  from Cons.prems(1) obtain tf1 s1 where w: "walk_parents c x tf s = Some (Inr (tf1, s1))"
    and r: "scan_items c xs tf1 s1 = Some (Inr (tf', s'))"
    by (auto split: option.splits sum.splits)
  from fail_fast_log [OF fail_fast_walk_parents [OF w]]
  have l1: "fetch_log s1 = fetch_log s @ issued_fetches s (Inr (tf1, s1))"
    by (simp add: state_of_def)
  from fail_fast_log [OF fail_fast_scan_items [OF r]]
  have l2: "fetch_log s' = fetch_log s1 @ issued_fetches s1 (Inr (tf', s'))"
    by (simp add: state_of_def)
  have ff1: "fetches_faithful c s s1" by (rule faithful_prefix [OF Cons.prems(2) l2])
  have ff2: "fetches_faithful c s1 s'"
    by (rule faithful_suffix [OF Cons.prems(2)]) (subst l1, simp)
  have inv: "resolved_except (insert x (set xs)) s" using Cons.prems(3) by simp
  have x: "x \<in> set (values_all s)" using Cons.prems(4) by simp
  have R: "\<forall>a \<in> set xs. a < length (heap s)"
    using Cons.prems(3,4) by (auto simp: resolved_except_def store_allocated_def)
  from walk_parents_resolves [OF w, of "set xs"] ff1 inv x Cons.prems(5) R
  have 1: "resolved_except (set xs) s1" "set tf1 \<subseteq> keys s1" "grows s s1" by blast+
  have "set xs \<subseteq> set (values_all s1)" using Cons.prems(4) 1(3) by (auto simp: grows_def)
  from Cons.IH [OF r ff2 1(1) this 1(2)] 1(3) show ?case
    using grows_trans by blast
qed

lemma parents_closed_iff: "parents_closed s \<longleftrightarrow> (\<forall>a \<in> set (values_all s). parent_ok s a)"
  by (auto simp: parents_closed_def parent_ok_def)

text \<open>A batch of identities that the Store holds already leaves the Store as it is.\<close>

lemma gather_known:
  "gather_get_item_by_id c ks s = Inr (as, s') \<Longrightarrow> fetches_faithful c s s'
   \<Longrightarrow> set ks \<subseteq> keys s \<Longrightarrow> s' = s\<lparr>fetch_log := fetch_log s @ ks\<rparr>"
proof (induction ks arbitrary: s as)
  case Nil
  then show ?case by simp
next
  case (Cons k ks)
  from Cons.prems(1) obtain a s1 as1 where g: "get_item_by_id c k s = Inr (a, s1)"
    and r: "gather_get_item_by_id c ks s1 = Inr (as1, s')"
    by (auto split: sum.splits)
  from get_item_by_id_log [OF g] have l1: "fetch_log s1 = fetch_log s @ [k]"
    by (simp add: state_of_def)
  from fail_fast_log [OF fail_fast_gather [of c s1 ks]] r
  have "fetch_log s' = fetch_log s1 @ issued_fetches s1 (Inr (as1, s'))"
    by (simp add: state_of_def)
  with l1 have "fetch_log s' = fetch_log s @ k # issued_fetches s1 (Inr (as1, s'))" by simp
  from faithful_first [OF Cons.prems(2) this] obtain w
    where w: "get_work_item_by_id c (length (fetch_log s)) k = Inr w" "id' w = k" by blast
  from Cons.prems(3) have "k \<in> keys s" by simp
  from get_item_by_id_known [OF w this] g
  have s1: "s1 = s\<lparr>fetch_log := fetch_log s @ [k]\<rparr>" by auto
  have ff1: "fetches_faithful c s1 s'"
    by (rule faithful_suffix [OF Cons.prems(2)]) (simp add: l1)
  have "set ks \<subseteq> keys s1" using Cons.prems(3) by (simp add: keys_def s1)
  from Cons.IH [OF r ff1 this] show ?case by (simp add: s1)
qed

lemma fetch_batches_known:
  "fetch_batches c bs s = Inr ((), s') \<Longrightarrow> fetches_faithful c s s'
   \<Longrightarrow> \<forall>b \<in> set bs. set b \<subseteq> keys s \<Longrightarrow> s' = s\<lparr>fetch_log := fetch_log s @ concat bs\<rparr>"
proof (induction bs arbitrary: s)
  case Nil
  then show ?case by simp
next
  case (Cons b bs)
  from Cons.prems(1) obtain as s1 where g: "gather_get_item_by_id c b s = Inr (as, s1)"
    and r: "fetch_batches c bs s1 = Inr ((), s')"
    by (auto split: sum.splits)
  from fail_fast_log [OF fail_fast_gather [of c s b]] g
  have l1: "fetch_log s1 = fetch_log s @ issued_fetches s (Inr (as, s1))"
    by (simp add: state_of_def)
  from fail_fast_log [OF fail_fast_fetch_batches [of c s1 bs]] r
  have l2: "fetch_log s' = fetch_log s1 @ issued_fetches s1 (Inr ((), s'))"
    by (simp add: state_of_def)
  have ff1: "fetches_faithful c s s1" by (rule faithful_prefix [OF Cons.prems(2) l2])
  have ff2: "fetches_faithful c s1 s'"
    by (rule faithful_suffix [OF Cons.prems(2)]) (subst l1, simp)
  from Cons.prems(3) have "set b \<subseteq> keys s" by simp
  from gather_known [OF g ff1 this] have s1: "s1 = s\<lparr>fetch_log := fetch_log s @ b\<rparr>" .
  have "\<forall>b' \<in> set bs. set b' \<subseteq> keys s1"
    using Cons.prems(3) by (simp add: keys_def s1)
  from Cons.IH [OF r ff2 this] show ?case by (simp add: s1)
qed

lemma set_batches: "b \<in> set (batches n xs) \<Longrightarrow> set b \<subseteq> set xs"
  by (auto simp: batches_def dest: in_set_takeD in_set_dropD)

lemma parents_closed_fetch_log [simp]:
  "parents_closed (s\<lparr>fetch_log := l\<rparr>) = parents_closed s"
  by (simp add: parents_closed_def values_all_def obj_def keys_def)

text \<open>
  C1. When \<open>_fetch_parents\<close> completes and every fetch that it issued succeeded with an
  item of the requested identity, every stored item with a parent identity other than 0
  has that identity among the keys of the Store. Nothing is assumed of a fetch that was
  not issued. The step is the one of the program: its only call (line 163) is in the
  Azure DevOps branch of \<open>get_items_with_details\<close>, so the platform is Azure DevOps.
  \<open>store_allocated\<close> says that the references of the Store point into the heap, which
  holds of every state of the Python program.
\<close>

theorem fetch_parents_closes_store:
  assumes "platform s = AZURE_DEVOPS"
    and "store_allocated s"
    and "fetch_parents c s = Some (Inr ((), s'))"
    and "fetches_faithful c s s'"
  shows "parents_closed s'"
proof -
  from assms(1,3) obtain tf s1 where sc: "scan_items c (values_all s) [] s = Some (Inr (tf, s1))"
    and fb: "fetch_batches c (batches 10 tf) s1 = Inr ((), s')"
    by (auto simp: fetch_parents_def split: option.splits sum.splits)
  from fail_fast_log [OF fail_fast_scan_items [OF sc]]
  have l1: "fetch_log s1 = fetch_log s @ issued_fetches s (Inr (tf, s1))"
    by (simp add: state_of_def)
  from fail_fast_log [OF fail_fast_fetch_batches [of c s1 "batches 10 tf"]] fb
  have l2: "fetch_log s' = fetch_log s1 @ issued_fetches s1 (Inr ((), s'))"
    by (simp add: state_of_def)
  have ff1: "fetches_faithful c s s1" by (rule faithful_prefix [OF assms(4) l2])
  have ff2: "fetches_faithful c s1 s'"
    by (rule faithful_suffix [OF assms(4)]) (subst l1, simp)
  have "resolved_except (set (values_all s)) s"
    using assms(2) by (simp add: resolved_except_def)
  from scan_items_resolves [OF sc ff1 this]
  have r: "resolved_except {} s1" and tf: "set tf \<subseteq> keys s1" by simp_all
  from r have c1: "parents_closed s1"
    by (simp add: parents_closed_iff resolved_except_def)
  have "\<forall>b \<in> set (batches 10 tf). set b \<subseteq> keys s1"
    using tf set_batches by blast
  from fetch_batches_known [OF fb ff2 this]
  have "s' = s1\<lparr>fetch_log := fetch_log s1 @ concat (batches 10 tf)\<rparr>" .
  with c1 show ?thesis by simp
qed

lemma known_chain_run:
  "fetch_parents known_chain_client fetched_one = Some (Inr ((), resolved_chain))"
  by (simp add: fetch_parents_def fetched_one_def resolved_chain_def init_work_def
      values_all_def walk_parents.simps obj_def keys_def get_item_by_id_def known_chain_client_def
      chain_client_def add_def alloc_def hierarchical_def sample_item_def batches_def)

lemma known_chain_fetches: "fetches_faithful known_chain_client fetched_one resolved_chain"
  unfolding fetches_faithful_def
proof (intro allI impI)
  fix n
  assume n: "length (fetch_log fetched_one) \<le> n \<and> n < length (fetch_log resolved_chain)"
  have l: "fetch_log resolved_chain = [1, 2, 3, 3, 2]"
    by (simp add: resolved_chain_def init_work_def)
  with n have "n < 5" by simp
  then have "([1, 2, 3, 3, 2] :: int list) ! n \<in> {1, 2, 3}"
    by (simp add: nth_Cons split: nat.splits)
  then show "\<exists>w. get_work_item_by_id known_chain_client n (fetch_log resolved_chain ! n) = Inr w
               \<and> id' w = fetch_log resolved_chain ! n"
    unfolding l by (auto simp: known_chain_client_def chain_client_def sample_item_def)
qed

theorem fetch_parents_closes_store_witness:
  "platform fetched_one = AZURE_DEVOPS
   \<and> store_allocated fetched_one
   \<and> \<not> parents_closed fetched_one
   \<and> fetch_parents known_chain_client fetched_one = Some (Inr ((), resolved_chain))
   \<and> fetches_faithful known_chain_client fetched_one resolved_chain
   \<and> (\<exists>e. get_work_item_by_id known_chain_client 0 4 = Inl e)
   \<and> map fst (all resolved_chain) = [1, 2, 3]
   \<and> parents_closed resolved_chain"
proof -
  have h1: "platform fetched_one = AZURE_DEVOPS"
    by (simp add: fetched_one_def init_work_def)
  have h3: "store_allocated fetched_one"
    by (simp add: store_allocated_def values_all_def fetched_one_def init_work_def)
  have h4: "\<not> parents_closed fetched_one"
    by (simp add: parents_closed_def values_all_def keys_def obj_def fetched_one_def
        init_work_def hierarchical_def sample_item_def)
  have h5: "\<exists>e. get_work_item_by_id known_chain_client 0 4 = Inl e"
    by (simp add: known_chain_client_def chain_client_def)
  have h6: "map fst (all resolved_chain) = [1, 2, 3]"
    by (simp add: resolved_chain_def)
  from fetch_parents_closes_store [OF h1 h3 known_chain_run known_chain_fetches]
    known_chain_run known_chain_fetches h1 h3 h4 h5 h6
  show ?thesis by blast
qed

section \<open>The orphan bucket\<close>

lemma fold_set_parent_id:
  "fold (set_parent_id v) xs s =
     s\<lparr>heap := fold (\<lambda>a h. h[a := (h ! a)\<lparr>parent_id := v\<rparr>]) xs (heap s)\<rparr>"
  by (induction xs arbitrary: s) (simp_all add: set_parent_id_def obj_def)

lemma length_fold_reparent:
  "length (fold (\<lambda>a h. h[a := (h ! a)\<lparr>parent_id := v\<rparr>]) xs h) = length h"
  by (induction xs arbitrary: h) simp_all

lemma nth_fold_reparent:
  "b < length h \<Longrightarrow>
   fold (\<lambda>a h. h[a := (h ! a)\<lparr>parent_id := v\<rparr>]) xs h ! b =
     (if b \<in> set xs then (h ! b)\<lparr>parent_id := v\<rparr> else h ! b)"
proof (induction xs arbitrary: h)
  case Nil
  then show ?case by simp
next
  case (Cons a xs)
  let ?h1 = "h[a := (h ! a)\<lparr>parent_id := v\<rparr>]"
  from Cons.prems have "b < length ?h1" by simp
  from Cons.IH [OF this] Cons.prems show ?case
    by (cases "b = a") simp_all
qed

lemma create_other_parent_eq:
  assumes "platform s \<noteq> GITHUB" and "orphaned_items s \<noteq> []"
  shows "create_other_parent s =
     s\<lparr>heap := fold (\<lambda>a h. h[a := (h ! a)\<lparr>parent_id := 0\<rparr>]) (orphaned_items s)
                 (heap s @ [other_parent\<lparr>children := orphaned_items s\<rparr>]),
       all := AList.update 0 (length (heap s)) (all s)\<rparr>"
  using assms
  by (simp add: create_other_parent_def Let_def alloc_def obj_def fold_set_parent_id)

lemma orphaned_items_allocated:
  "store_allocated s \<Longrightarrow> a \<in> set (orphaned_items s) \<Longrightarrow> a < length (heap s)"
  by (simp add: store_allocated_def orphaned_items_def)

lemma obj_create_other_parent_old:
  assumes "platform s \<noteq> GITHUB" and "orphaned_items s \<noteq> []" and "a < length (heap s)"
  shows "obj (create_other_parent s) a =
           (if a \<in> set (orphaned_items s) then (obj s a)\<lparr>parent_id := 0\<rparr> else obj s a)"
  using assms
  by (simp add: create_other_parent_eq obj_def nth_fold_reparent nth_append)

lemma obj_create_other_parent_new:
  assumes "platform s \<noteq> GITHUB" and "orphaned_items s \<noteq> []" and "store_allocated s"
  shows "obj (create_other_parent s) (length (heap s)) =
           other_parent\<lparr>children := orphaned_items s\<rparr>"
proof -
  have "length (heap s) \<notin> set (orphaned_items s)"
    using orphaned_items_allocated [OF assms(3)] by blast
  then show ?thesis
    using assms(1,2)
    by (simp add: create_other_parent_eq obj_def nth_fold_reparent)
qed

text \<open>
  C3. On a platform other than GitHub, when some stored item is flagged orphan and has
  an identity other than 0, \<open>_create_other_parent\<close> stores under key 0 a node with
  identity 0, type and title "Other", root true, orphan false, whose children are the
  orphaned items (the same objects, in Store order), and every orphaned item has parent
  identity 0 afterwards.
\<close>

theorem create_other_parent_bucket:
  assumes "platform s \<noteq> GITHUB" and "store_allocated s" and "orphaned_items s \<noteq> []"
  shows "\<exists>a. map_of (all (create_other_parent s)) 0 = Some a
           \<and> id' (obj (create_other_parent s) a) = 0
           \<and> type (obj (create_other_parent s) a) = ''Other''
           \<and> title (obj (create_other_parent s) a) = ''Other''
           \<and> root (obj (create_other_parent s) a) = True
           \<and> orphan (obj (create_other_parent s) a) = False
           \<and> children (obj (create_other_parent s) a) = orphaned_items s
           \<and> (\<forall>item \<in> set (orphaned_items s). parent_id (obj (create_other_parent s) item) = 0)"
proof -
  have "map_of (all (create_other_parent s)) 0 = Some (length (heap s))"
    using assms(1,3) by (simp add: create_other_parent_eq update_conv')
  moreover have "obj (create_other_parent s) (length (heap s)) =
      other_parent\<lparr>children := orphaned_items s\<rparr>"
    using assms by (simp add: obj_create_other_parent_new)
  moreover have "\<forall>item \<in> set (orphaned_items s). parent_id (obj (create_other_parent s) item) = 0"
    using assms orphaned_items_allocated [OF assms(2)]
    by (simp add: obj_create_other_parent_old)
  ultimately show ?thesis
    by (simp add: other_parent_def)
qed


lemma orphan_store_orphans: "orphaned_items orphan_store = [0, 1]"
  by (simp add: orphaned_items_def values_all_def obj_def orphan_store_def init_work_def
      hierarchical_def sample_item_def)

lemma orphan_store_allocated: "store_allocated orphan_store"
  by (simp add: store_allocated_def values_all_def orphan_store_def init_work_def)

theorem create_other_parent_bucket_witness:
  "platform orphan_store \<noteq> GITHUB \<and> store_allocated orphan_store
   \<and> orphaned_items orphan_store = [0, 1]
   \<and> (\<exists>a. map_of (all (create_other_parent orphan_store)) 0 = Some a
         \<and> id' (obj (create_other_parent orphan_store) a) = 0
         \<and> type (obj (create_other_parent orphan_store) a) = ''Other''
         \<and> children (obj (create_other_parent orphan_store) a) = [0, 1]
         \<and> parent_id (obj (create_other_parent orphan_store) 0) = 0
         \<and> parent_id (obj (create_other_parent orphan_store) 1) = 0)"
proof -
  have h1: "platform orphan_store \<noteq> GITHUB"
    by (simp add: orphan_store_def init_work_def)
  have h3: "orphaned_items orphan_store \<noteq> []"
    by (simp add: orphan_store_orphans)
  from create_other_parent_bucket [OF h1 orphan_store_allocated h3]
  show ?thesis
    using h1 orphan_store_allocated by (auto simp: orphan_store_orphans)
qed

text \<open>
  C10. \<open>_create_other_parent\<close> changes no object that existed before, except that a
  bucketed item (on a platform other than GitHub) has its \<open>parent_id\<close> set to 0: all
  its other fields, the orphan flag (true) and the child list among them, are as before.
  When no item is orphaned the whole state is unchanged, so no node 0 is created.
\<close>

theorem create_other_parent_frame:
  assumes "store_allocated s"
  shows "(\<forall>a < length (heap s).
            obj (create_other_parent s) a =
              (if platform s \<noteq> GITHUB \<and> a \<in> set (orphaned_items s)
               then (obj s a)\<lparr>parent_id := 0\<rparr> else obj s a))
         \<and> (\<forall>a \<in> set (orphaned_items s). orphan (obj (create_other_parent s) a))
         \<and> (orphaned_items s = [] \<longrightarrow> create_other_parent s = s)"
proof -
  have 1: "\<forall>a < length (heap s).
            obj (create_other_parent s) a =
              (if platform s \<noteq> GITHUB \<and> a \<in> set (orphaned_items s)
               then (obj s a)\<lparr>parent_id := 0\<rparr> else obj s a)"
  proof (cases "platform s \<noteq> GITHUB \<and> orphaned_items s \<noteq> []")
    case True
    then show ?thesis by (simp add: obj_create_other_parent_old)
  next
    case False
    then have "create_other_parent s = s"
      by (auto simp: create_other_parent_def Let_def)
    with False show ?thesis by auto
  qed
  have 2: "\<forall>a \<in> set (orphaned_items s). orphan (obj (create_other_parent s) a)"
  proof
    fix a assume a: "a \<in> set (orphaned_items s)"
    then have "a < length (heap s)" using assms by (rule orphaned_items_allocated [rotated])
    with 1 have "obj (create_other_parent s) a =
              (if platform s \<noteq> GITHUB \<and> a \<in> set (orphaned_items s)
               then (obj s a)\<lparr>parent_id := 0\<rparr> else obj s a)" by blast
    moreover from a have "orphan (obj s a)" by (simp add: orphaned_items_def)
    ultimately show "orphan (obj (create_other_parent s) a)" by simp
  qed
  have 3: "orphaned_items s = [] \<longrightarrow> create_other_parent s = s"
    by (simp add: create_other_parent_def Let_def)
  from 1 2 3 show ?thesis by blast
qed

theorem create_other_parent_frame_witness:
  "store_allocated orphan_store \<and> 0 \<in> set (orphaned_items orphan_store)
   \<and> obj (create_other_parent orphan_store) 0 = (obj orphan_store 0)\<lparr>parent_id := 0\<rparr>
   \<and> orphan (obj (create_other_parent orphan_store) 0)
   \<and> obj (create_other_parent orphan_store) 2 = obj orphan_store 2
   \<and> store_allocated (dangling_store AZURE_DEVOPS)
   \<and> orphaned_items (dangling_store AZURE_DEVOPS) = []
   \<and> create_other_parent (dangling_store AZURE_DEVOPS) = dangling_store AZURE_DEVOPS"
proof -
  have l: "length (heap orphan_store) = 3" and p: "platform orphan_store \<noteq> GITHUB"
    by (simp_all add: orphan_store_def init_work_def)
  have h2: "store_allocated (dangling_store AZURE_DEVOPS)"
    by (simp add: store_allocated_def values_all_def dangling_store_def init_work_def)
  have e: "orphaned_items (dangling_store AZURE_DEVOPS) = []"
    by (simp add: orphaned_items_def values_all_def obj_def dangling_store_def init_work_def
        hierarchical_def sample_item_def)
  have m: "0 \<in> set (orphaned_items orphan_store)" "2 \<notin> set (orphaned_items orphan_store)"
    by (simp_all add: orphan_store_orphans)
  from create_other_parent_frame [OF orphan_store_allocated]
  have A: "\<forall>a < length (heap orphan_store).
            obj (create_other_parent orphan_store) a =
              (if platform orphan_store \<noteq> GITHUB \<and> a \<in> set (orphaned_items orphan_store)
               then (obj orphan_store a)\<lparr>parent_id := 0\<rparr> else obj orphan_store a)"
    and B: "\<forall>a \<in> set (orphaned_items orphan_store).
              orphan (obj (create_other_parent orphan_store) a)"
    by blast+
  from A [rule_format, of 0] A [rule_format, of 2] B [rule_format, of 0] l p m
  have "obj (create_other_parent orphan_store) 0 = (obj orphan_store 0)\<lparr>parent_id := 0\<rparr>
     \<and> orphan (obj (create_other_parent orphan_store) 0)
     \<and> obj (create_other_parent orphan_store) 2 = obj orphan_store 2"
    by simp
  moreover from create_other_parent_frame [OF h2] e
  have "create_other_parent (dangling_store AZURE_DEVOPS) = dangling_store AZURE_DEVOPS"
    by blast
  ultimately show ?thesis
    using orphan_store_allocated h2 e m by blast
qed

section \<open>Summarisation\<close>

lemma lower_commit_examples:
  "lower ''Commit'' = ''commit''" "lower ''COMMIT'' = ''commit''"
  "lower ''Bug'' \<noteq> ''commit''" "lower ''Task'' \<noteq> ''commit''"
  by (simp_all add: lower_def lower_char_def)

text \<open>
  C7. \<open>summarize_work_item\<close> returns an item whose type is "commit" in any letter case
  as it is, in an unchanged state, whatever the summariser would do (it is not called:
  the result is the same for a summariser that always raises); no item of such a type
  is among the candidates of the summarisation pass; and the items built from commits
  have such a type.
\<close>

theorem commit_items_never_summarized:
  "(lower (type (obj s wi)) = ''commit'' \<longrightarrow> summarize_work_item c wi s = Inr (wi, s))
   \<and> (\<forall>item \<in> set (summary_candidates s). lower (type (obj s item)) \<noteq> ''commit'')
   \<and> lower (type (convert_commit_to_work_item c commit)) = ''commit''"
  by (simp add: summarize_work_item_def summary_candidates_def
      convert_commit_to_work_item_def lower_commit_examples)

theorem commit_items_never_summarized_witness:
  "lower (type (obj commit_store 0)) = ''commit''
   \<and> summarize_work_item failing_summariser 0 commit_store = Inr (0, commit_store)
   \<and> summary_candidates commit_store = [1]
   \<and> lower (type (obj commit_store 1)) \<noteq> ''commit''
   \<and> summarize_work_item failing_summariser 1 commit_store
       = Inl (Raised ''model unavailable'', commit_store)"
proof -
  have t0: "type (obj commit_store 0) = ''COMMIT''" and t1: "type (obj commit_store 1) = ''Bug''"
    by (simp_all add: commit_store_def init_work_def obj_def hierarchical_def sample_item_def)
  have h: "lower (type (obj commit_store 0)) = ''commit''"
    by (simp add: t0 lower_commit_examples)
  have c: "summary_candidates commit_store = [1]"
    by (simp add: summary_candidates_def values_all_def obj_def commit_store_def init_work_def
        hierarchical_def sample_item_def lower_commit_examples)
  have f: "summarize_work_item failing_summariser 1 commit_store
       = Inl (Raised ''model unavailable'', commit_store)"
    by (simp add: summarize_work_item_def failing_summariser_def commit_store_def init_work_def
        obj_def hierarchical_def sample_item_def lower_commit_examples)
  from commit_items_never_summarized [of commit_store 0 failing_summariser] h
  have "summarize_work_item failing_summariser 0 commit_store = Inr (0, commit_store)"
    by blast
  moreover from commit_items_never_summarized [of commit_store 0 failing_summariser] c
  have "lower (type (obj commit_store 1)) \<noteq> ''commit''" by simp
  ultimately show ?thesis using h c f by blast
qed

lemma summarize_work_item_run:
  assumes "item_summary s" and "lower (type (obj s x)) \<noteq> ''commit''"
    and "summarize_work_item c x s = Inr (a, s1)"
  shows "\<exists>t. summarise c (prompt_of c s (obj s x)) = Inr t \<and> a = x
             \<and> s1 = s\<lparr>heap := (heap s)[x := (obj s x)\<lparr>summary := Some t\<rparr>]\<rparr>"
  using assms by (auto simp: summarize_work_item_def split: sum.splits)

lemma gather_summarize_effect:
  "item_summary s \<Longrightarrow> \<forall>a \<in> set xs. a < length (heap s) \<and> lower (type (obj s a)) \<noteq> ''commit''
   \<Longrightarrow> gather_summarize_work_item c xs s = Inr (as, s')
   \<Longrightarrow> s' = s\<lparr>heap := heap s'\<rparr> \<and> length (heap s') = length (heap s)
       \<and> (\<forall>a < length (heap s).
             if a \<in> set xs
             then \<exists>t. summarise c (prompt_of c s (obj s a)) = Inr t
                      \<and> obj s' a = (obj s a)\<lparr>summary := Some t\<rparr>
             else obj s' a = obj s a)"
proof (induction xs arbitrary: s as)
  case Nil
  then show ?case by simp
next
  case (Cons x xs)
  from Cons.prems(3) obtain a s1 as1 where
    1: "summarize_work_item c x s = Inr (a, s1)"
    and 2: "gather_summarize_work_item c xs s1 = Inr (as1, s')"
    by (auto split: sum.splits)
  from Cons.prems(2) have x: "x < length (heap s)" "lower (type (obj s x)) \<noteq> ''commit''"
    by simp_all
  from summarize_work_item_run [OF Cons.prems(1) x(2) 1] obtain t where
    t: "summarise c (prompt_of c s (obj s x)) = Inr t"
    and s1: "s1 = s\<lparr>heap := (heap s)[x := (obj s x)\<lparr>summary := Some t\<rparr>]\<rparr>"
    by blast
  have o1: "\<And>b. b < length (heap s) \<Longrightarrow>
      obj s1 b = (if b = x then (obj s x)\<lparr>summary := Some t\<rparr> else obj s b)"
    by (simp add: s1 obj_def)
  have ty: "\<And>b. b < length (heap s) \<Longrightarrow> type (obj s1 b) = type (obj s b)"
    by (simp add: o1)
  have pr: "\<And>b. b < length (heap s) \<Longrightarrow> prompt_of c s1 (obj s1 b) = prompt_of c s (obj s b)"
    by (simp add: o1 prompt_of_def) (simp add: s1)
  have l1: "length (heap s1) = length (heap s)" by (simp add: s1)
  have i1: "item_summary s1" using Cons.prems(1) by (simp add: s1)
  have p1: "\<forall>a \<in> set xs. a < length (heap s1) \<and> lower (type (obj s1 a)) \<noteq> ''commit''"
    using Cons.prems(2) by (simp add: l1 ty)
  from Cons.IH [OF i1 p1 2]
  have e: "s' = s1\<lparr>heap := heap s'\<rparr>" and l: "length (heap s') = length (heap s1)"
    and f: "\<forall>a < length (heap s1).
             if a \<in> set xs
             then \<exists>t. summarise c (prompt_of c s1 (obj s1 a)) = Inr t
                      \<and> obj s' a = (obj s1 a)\<lparr>summary := Some t\<rparr>
             else obj s' a = obj s1 a"
    by blast+
  have "s' = s\<lparr>heap := heap s'\<rparr>"
    by (subst e) (simp add: s1)
  moreover have "length (heap s') = length (heap s)" using l l1 by simp
  moreover have "\<forall>a < length (heap s).
             if a \<in> set (x # xs)
             then \<exists>t. summarise c (prompt_of c s (obj s a)) = Inr t
                      \<and> obj s' a = (obj s a)\<lparr>summary := Some t\<rparr>
             else obj s' a = obj s a"
  proof (intro allI impI)
    fix b assume b: "b < length (heap s)"
    with f l1 have fb: "if b \<in> set xs
             then \<exists>t. summarise c (prompt_of c s1 (obj s1 b)) = Inr t
                      \<and> obj s' b = (obj s1 b)\<lparr>summary := Some t\<rparr>
             else obj s' b = obj s1 b" by simp
    show "if b \<in> set (x # xs)
             then \<exists>t. summarise c (prompt_of c s (obj s b)) = Inr t
                      \<and> obj s' b = (obj s b)\<lparr>summary := Some t\<rparr>
             else obj s' b = obj s b"
    proof (cases "b \<in> set xs")
      case True
      with fb obtain t' where "summarise c (prompt_of c s1 (obj s1 b)) = Inr t'"
        "obj s' b = (obj s1 b)\<lparr>summary := Some t'\<rparr>" by auto
      then show ?thesis using True pr [OF b] o1 [OF b] by auto
    next
      case False
      with fb have "obj s' b = obj s1 b" by simp
      then show ?thesis using False o1 [OF b] t by auto
    qed
  qed
  ultimately show ?case by blast
qed

lemma candidates_allocated:
  "store_allocated s \<Longrightarrow>
   \<forall>a \<in> set (summary_candidates s). a < length (heap s) \<and> lower (type (obj s a)) \<noteq> ''commit''"
  by (simp add: store_allocated_def summary_candidates_def)

text \<open>
  C5, as the code has it. With item summaries enabled, the candidates of the pass of
  lines 168-174 are the stored items whose identity is in \<open>item_ids\<close> and whose type
  is not "commit" in any letter case; when the pass returns, every candidate carries the
  summariser's answer to its prompt, and every other object is as before.
\<close>

theorem summarize_pass_covers:
  assumes "item_summary s" and "store_allocated s" and "summarize_pass c s = Inr ((), s')"
  shows "set (summary_candidates s) =
           {a \<in> set (values_all s).
              id' (obj s a) \<in> set (item_ids s) \<and> lower (type (obj s a)) \<noteq> ''commit''}
         \<and> (\<forall>a < length (heap s).
               if a \<in> set (summary_candidates s)
               then \<exists>t. summarise c (prompt_of c s (obj s a)) = Inr t
                        \<and> obj s' a = (obj s a)\<lparr>summary := Some t\<rparr>
               else obj s' a = obj s a)"
proof -
  from assms(1,3) obtain as where
    g: "gather_summarize_work_item c (summary_candidates s) s = Inr (as, s')"
    by (auto simp: summarize_pass_def split: sum.splits)
  from gather_summarize_effect [OF assms(1) candidates_allocated [OF assms(2)] g]
  show ?thesis by (auto simp: summary_candidates_def)
qed

lemma resolved_chain_candidates: "summary_candidates resolved_chain = [0]"
  by (simp add: summary_candidates_def values_all_def obj_def resolved_chain_def init_work_def
      hierarchical_def sample_item_def lower_commit_examples)

lemma summarize_chain:
  "summarize_pass chain_client resolved_chain = Inr ((), summarized_chain)"
  by (simp add: summarize_pass_def resolved_chain_candidates)
     (simp add: summarize_work_item_def prompt_of_def str_opt_def obj_def resolved_chain_def
        summarized_chain_def init_work_def chain_client_def hierarchical_def sample_item_def
        lower_commit_examples)

theorem summarize_pass_covers_witness:
  "item_summary resolved_chain \<and> store_allocated resolved_chain
   \<and> summarize_pass chain_client resolved_chain = Inr ((), summarized_chain)
   \<and> summary_candidates resolved_chain = [0]
   \<and> summary (obj summarized_chain 0) = Some ''Summarise: An item item type: Task None ''
   \<and> obj summarized_chain 1 = obj resolved_chain 1
   \<and> obj summarized_chain 2 = obj resolved_chain 2"
proof -
  have h1: "item_summary resolved_chain"
    by (simp add: resolved_chain_def init_work_def)
  have h2: "store_allocated resolved_chain"
    by (simp add: store_allocated_def values_all_def resolved_chain_def init_work_def)
  have l: "length (heap resolved_chain) = 3"
    by (simp add: resolved_chain_def init_work_def)
  have s0: "summary (obj summarized_chain 0) = Some ''Summarise: An item item type: Task None ''"
    by (simp add: summarized_chain_def obj_def)
  from summarize_pass_covers [OF h1 h2 summarize_chain]
  have A: "\<forall>a < length (heap resolved_chain).
               if a \<in> set (summary_candidates resolved_chain)
               then \<exists>t. summarise chain_client (prompt_of chain_client resolved_chain
                          (obj resolved_chain a)) = Inr t
                        \<and> obj summarized_chain a = (obj resolved_chain a)\<lparr>summary := Some t\<rparr>
               else obj summarized_chain a = obj resolved_chain a"
    by blast
  from A [rule_format, of 1] A [rule_format, of 2] l
  have "obj summarized_chain 1 = obj resolved_chain 1
      \<and> obj summarized_chain 2 = obj resolved_chain 2"
    by (simp add: resolved_chain_candidates)
  with h1 h2 summarize_chain resolved_chain_candidates s0 show ?thesis by blast
qed

lemma populate_chain:
  "populate_azure chain_client [hierarchical (sample_item 1 ''Task'' 2 False)]
     (init_work AZURE_DEVOPS True True) = Some (Inr ((), resolved_chain))"
  by (simp add: populate_azure_def fetch_parents_def init_work_def values_all_def
      walk_parents.simps obj_def keys_def get_item_by_id_def chain_client_def add_def alloc_def
      hierarchical_def sample_item_def batches_def create_other_parent_def orphaned_items_def
      resolved_chain_def)

text \<open>
  The claim C5 as stated fails: after the Azure DevOps population of the Store with the
  chain client, item 2 (fetched as the parent of item 1) is stored and of type "Task",
  and it is not among the candidates of the pass, because 2 is not in \<open>item_ids\<close>.
\<close>

theorem summary_pass_counterexample:
  "populate_azure chain_client [hierarchical (sample_item 1 ''Task'' 2 False)]
     (init_work AZURE_DEVOPS True True) = Some (Inr ((), resolved_chain))
   \<and> item_summary resolved_chain
   \<and> 1 \<in> set (values_all resolved_chain)
   \<and> type (obj resolved_chain 1) \<noteq> ''Commit''
   \<and> 1 \<notin> set (summary_candidates resolved_chain)"
  by (simp add: populate_chain)
     (simp add: resolved_chain_def init_work_def values_all_def obj_def summary_candidates_def
        hierarchical_def sample_item_def)

section \<open>Failing fetches\<close>

lemma first_failure_Some:
  "first_failure c n ks = Some e
   \<Longrightarrow> \<exists>j < length ks. get_work_item_by_id c (n + j) (ks ! j) = Inl e
         \<and> (\<forall>j' < j. \<exists>w. get_work_item_by_id c (n + j') (ks ! j') = Inr w)"
proof (induction ks arbitrary: n)
  case Nil
  then show ?case by simp
next
  case (Cons k ks)
  show ?case
  proof (cases "get_work_item_by_id c n k")
    case (Inl e')
    with Cons.prems have "e' = e" by simp
    with Inl have "get_work_item_by_id c (n + 0) ((k # ks) ! 0) = Inl e" by simp
    then show ?thesis by (intro exI [of _ 0]) simp
  next
    case (Inr w)
    with Cons.prems have "first_failure c (Suc n) ks = Some e" by simp
    from Cons.IH [OF this] obtain j where j: "j < length ks"
      "get_work_item_by_id c (Suc n + j) (ks ! j) = Inl e"
      "\<forall>j' < j. \<exists>w. get_work_item_by_id c (Suc n + j') (ks ! j') = Inr w"
      by blast
    have "\<forall>j' < Suc j. \<exists>w. get_work_item_by_id c (n + j') ((k # ks) ! j') = Inr w"
    proof (intro allI impI)
      fix j' assume "j' < Suc j"
      then show "\<exists>w. get_work_item_by_id c (n + j') ((k # ks) ! j') = Inr w"
        using Inr j(3) by (cases j') auto
    qed
    with j(1,2) show ?thesis by (intro exI [of _ "Suc j"]) simp
  qed
qed

lemma first_failure_None:
  "first_failure c n ks = None \<Longrightarrow> i < length ks
   \<Longrightarrow> \<exists>w. get_work_item_by_id c (n + i) (ks ! i) = Inr w"
proof (induction ks arbitrary: n i)
  case Nil
  then show ?case by simp
next
  case (Cons k ks)
  from Cons.prems(1) obtain w where w: "get_work_item_by_id c n k = Inr w"
    and r: "first_failure c (Suc n) ks = None"
    by (auto split: sum.splits)
  show ?case
  proof (cases i)
    case 0
    with w show ?thesis by simp
  next
    case (Suc m)
    with Cons.prems(2) have "m < length ks" by simp
    from Cons.IH [OF r this] Suc show ?thesis by simp
  qed
qed

text \<open>
  C6. A run of \<open>get_items_with_details\<close> on Azure DevOps that has fetched the list of
  items and stored them enters parent resolution in some state \<open>s1\<close>. The fetches that
  parent resolution issues, in the walk of lines 228-232 and in the batches of line 238,
  are numbered from 0 in \<open>issued_fetches s1 r\<close>. If one of them, fetch \<open>i\<close>, fails, parent
  resolution raises, and the error is that of the first fetch that failed (fetch \<open>j\<close>,
  with every fetch before it successful); \<open>get_items_with_details\<close> raises the same
  error, and so returns no list of groups.
\<close>

theorem fetch_failure_aborts_run:
  assumes "platform s = AZURE_DEVOPS"
    and "get_work_items_with_details c (length (heap s)) = Inr (created, fetched)"
    and "gather_get_item_by_id c (map id' fetched)
           (s\<lparr>heap := heap s @ created, item_ids := map id' fetched\<rparr>) = Inr (as, s1)"
    and "fetch_parents c s1 = Some r"
    and "i < length (issued_fetches s1 r)"
    and "get_work_item_by_id c (length (fetch_log s1) + i) (issued_fetches s1 r ! i) = Inl e0"
  shows "\<exists>e s' j. j \<le> i
           \<and> get_work_item_by_id c (length (fetch_log s1) + j) (issued_fetches s1 r ! j) = Inl e
           \<and> (\<forall>j' < j. \<exists>w. get_work_item_by_id c (length (fetch_log s1) + j')
                              (issued_fetches s1 r ! j') = Inr w)
           \<and> r = Inl (e, s')
           \<and> get_items_with_details c s = Some (Inl (e, s'))"
proof -
  let ?n = "length (fetch_log s1)" and ?ks = "issued_fetches s1 r"
  have "first_failure c ?n ?ks \<noteq> None"
  proof
    assume "first_failure c ?n ?ks = None"
    from first_failure_None [OF this assms(5)] assms(6) show False by simp
  qed
  then obtain e where e: "first_failure c ?n ?ks = Some e" by blast
  from first_failure_Some [OF e] obtain j
    where j: "get_work_item_by_id c (?n + j) (?ks ! j) = Inl e"
      "\<forall>j' < j. \<exists>w. get_work_item_by_id c (?n + j') (?ks ! j') = Inr w"
    by blast
  have ji: "j \<le> i"
  proof (rule ccontr)
    assume "\<not> j \<le> i"
    then have "i < j" by simp
    with j(2) assms(6) show False by auto
  qed
  from fail_fast_fetch_parents [OF assms(4)] e
  obtain s' where r: "r = Inl (e, s')" by (auto simp: fail_fast_def)
  from assms(3,4) r
  have "populate_azure c fetched (s\<lparr>heap := heap s @ created\<rparr>) = Some (Inl (e, s'))"
    by (simp add: populate_azure_def)
  with assms(1,2) have "get_items_with_details c s = Some (Inl (e, s'))"
    by (simp add: get_items_with_details_def)
  with r j ji show ?thesis by blast
qed

lemma timeout_details:
  "get_work_items_with_details timeout_client
     (length (heap (init_work AZURE_DEVOPS True True)))
     = Inr ([], [hierarchical (sample_item 1 ''Task'' 2 False)])"
  by (simp add: timeout_client_def chain_client_def)

lemma timeout_gather:
  "gather_get_item_by_id timeout_client
     (map id' [hierarchical (sample_item 1 ''Task'' 2 False)])
     ((init_work AZURE_DEVOPS True True)
        \<lparr>heap := heap (init_work AZURE_DEVOPS True True) @ [],
         item_ids := map id' [hierarchical (sample_item 1 ''Task'' 2 False)]\<rparr>)
     = Inr ([0], fetched_one)"
  by (simp add: get_item_by_id_def timeout_client_def chain_client_def add_def
      alloc_def init_work_def fetched_one_def hierarchical_def sample_item_def)

lemma timeout_scan:
  "scan_items timeout_client (values_all fetched_one) [] fetched_one
     = Some (Inr ([3, 2], timed_out\<lparr>fetch_log := [1, 2, 3]\<rparr>))"
  by (simp add: fetched_one_def timed_out_def init_work_def values_all_def
      walk_parents.simps obj_def keys_def get_item_by_id_def timeout_client_def
      chain_client_def add_def alloc_def hierarchical_def sample_item_def)

lemma timeout_batch:
  "gather_get_item_by_id timeout_client [3, 2] (timed_out\<lparr>fetch_log := [1, 2, 3]\<rparr>)
     = Inl (Raised ''timeout'', timed_out)"
  by (simp add: fetched_one_def timed_out_def init_work_def get_item_by_id_def
      timeout_client_def chain_client_def add_def alloc_def hierarchical_def sample_item_def
      state_of_def)

lemma timeout_fetch_parents:
  "fetch_parents timeout_client fetched_one = Some (Inl (Raised ''timeout'', timed_out))"
proof -
  have "platform fetched_one = AZURE_DEVOPS" by (simp add: fetched_one_def init_work_def)
  then show ?thesis
    by (simp add: fetch_parents_def timeout_scan batches_def timeout_batch
        del: gather_get_item_by_id.simps)
qed

theorem fetch_failure_aborts_run_witness:
  "platform (init_work AZURE_DEVOPS True True) = AZURE_DEVOPS
   \<and> scan_items timeout_client (values_all fetched_one) [] fetched_one
       = Some (Inr ([3, 2], timed_out\<lparr>fetch_log := [1, 2, 3]\<rparr>))
   \<and> gather_get_item_by_id timeout_client [3, 2] (timed_out\<lparr>fetch_log := [1, 2, 3]\<rparr>)
       = Inl (Raised ''timeout'', timed_out)
   \<and> fetch_parents timeout_client fetched_one = Some (Inl (Raised ''timeout'', timed_out))
   \<and> issued_fetches fetched_one (Inl (Raised ''timeout'', timed_out) :: unit result)
       = [2, 3, 3, 2]
   \<and> get_work_item_by_id timeout_client (length (fetch_log fetched_one) + 2) 3
       = Inl (Raised ''timeout'')
   \<and> get_items_with_details timeout_client (init_work AZURE_DEVOPS True True)
       = Some (Inl (Raised ''timeout'', timed_out))"
proof -
  have h1: "platform (init_work AZURE_DEVOPS True True) = AZURE_DEVOPS"
    by (simp add: init_work_def)
  have i: "issued_fetches fetched_one (Inl (Raised ''timeout'', timed_out) :: unit result)
       = [2, 3, 3, 2]"
    by (simp add: issued_fetches_def state_of_def fetched_one_def timed_out_def init_work_def)
  have l: "length (fetch_log fetched_one) = 1"
    by (simp add: fetched_one_def init_work_def)
  have h5: "2 < length (issued_fetches fetched_one
        (Inl (Raised ''timeout'', timed_out) :: unit result))"
    by (simp add: i)
  have g: "get_work_item_by_id timeout_client (length (fetch_log fetched_one) + 2) 3
       = Inl (Raised ''timeout'')"
    by (simp add: l timeout_client_def)
  then have h6: "get_work_item_by_id timeout_client (length (fetch_log fetched_one) + 2)
       (issued_fetches fetched_one (Inl (Raised ''timeout'', timed_out) :: unit result) ! 2)
       = Inl (Raised ''timeout'')"
    by (simp add: i)
  from fetch_failure_aborts_run
    [OF h1 timeout_details timeout_gather timeout_fetch_parents h5 h6]
  have "get_items_with_details timeout_client (init_work AZURE_DEVOPS True True)
       = Some (Inl (Raised ''timeout'', timed_out))"
    by (elim exE conjE) simp
  with h1 timeout_scan timeout_batch timeout_fetch_parents i g show ?thesis by blast
qed

section \<open>The configuration is kept\<close>

lemma same_config_refl: "same_config s s"
  by (simp add: same_config_def)

lemma same_config_trans: "same_config s s1 \<Longrightarrow> same_config s1 s2 \<Longrightarrow> same_config s s2"
  by (simp add: same_config_def)

lemma keeps_config_return: "same_config s s1 \<Longrightarrow> keeps_config s (Inr (x, s1))"
  by (simp add: keeps_config_def state_of_def)

lemma keeps_config_bind:
  assumes "keeps_config s r1"
    and "\<And>x s1. r1 = Inr (x, s1) \<Longrightarrow> keeps_config s1 (f x s1)"
  shows "keeps_config s (case r1 of Inl x \<Rightarrow> Inl x | Inr (x, s1) \<Rightarrow> f x s1)"
proof (cases r1)
  case (Inl x)
  with assms(1) show ?thesis
    by (cases x) (simp add: keeps_config_def state_of_def)
next
  case (Inr y)
  obtain x s1 where y: "y = (x, s1)" by (cases y)
  from assms(1) Inr y have "same_config s s1" by (simp add: keeps_config_def state_of_def)
  moreover from assms(2) Inr y have "same_config s1 (state_of (f x s1))"
    by (simp add: keeps_config_def)
  ultimately show ?thesis using Inr y
    by (simp add: keeps_config_def same_config_trans)
qed

lemma same_config_add: "same_config s (snd (add p s))"
  by (simp add: add_def alloc_def same_config_def split: option.splits)

lemma keeps_config_get_item_by_id: "keeps_config s (get_item_by_id c k s)"
proof (cases "get_work_item_by_id c (length (fetch_log s)) k")
  case (Inl e)
  then show ?thesis
    by (simp add: get_item_by_id_def keeps_config_def state_of_def same_config_def)
next
  case (Inr w)
  then show ?thesis
    using same_config_add [of "s\<lparr>fetch_log := fetch_log s @ [k]\<rparr>" "hierarchical w"]
    by (simp add: get_item_by_id_def keeps_config_def state_of_def case_prod_unfold
        same_config_def)
qed

lemma state_of_gather_get_item_by_id:
  "state_of (gather_get_item_by_id c (k # ks) s)
     = state_of (gather_get_item_by_id c ks (state_of (get_item_by_id c k s)))"
  by (auto simp: state_of_def split: sum.splits)

lemma keeps_config_gather: "keeps_config s (gather_get_item_by_id c ks s)"
proof (induction ks arbitrary: s)
  case Nil
  show ?case by (simp add: keeps_config_return same_config_refl)
next
  case (Cons k ks)
  let ?s1 = "state_of (get_item_by_id c k s)"
  from keeps_config_get_item_by_id have "same_config s ?s1" by (simp add: keeps_config_def)
  moreover from Cons.IH have "same_config ?s1 (state_of (gather_get_item_by_id c ks ?s1))"
    by (simp add: keeps_config_def)
  ultimately show ?case
    unfolding keeps_config_def state_of_gather_get_item_by_id by (rule same_config_trans)
qed

lemma keeps_config_fetch_batches: "keeps_config s (fetch_batches c bs s)"
proof (induction bs arbitrary: s)
  case Nil
  show ?case by (simp add: keeps_config_return same_config_refl)
next
  case (Cons b bs)
  have "keeps_config s
     (case gather_get_item_by_id c b s of
        Inl x \<Rightarrow> Inl x
      | Inr (as, s1) \<Rightarrow> fetch_batches c bs s1)"
    by (rule keeps_config_bind [OF keeps_config_gather]) (rule Cons.IH)
  then show ?case by (simp add: case_prod_unfold)
qed

lemma keeps_config_walk_parents:
  assumes "walk_parents c0 cur0 tf0 s0 = Some y0"
  shows "keeps_config s0 y0"
proof (rule walk_parents.raw_induct [where P = "\<lambda>c cur tf s y. keeps_config s y", OF _ assms])
  fix walk c cur tf s y
  assume IH: "\<And>c cur tf s y. walk c cur tf s = Some y \<Longrightarrow> keeps_config s y"
    and body: "(if parent_id (obj s cur) \<noteq> 0 \<and> parent_id (obj s cur) \<notin> keys s
      then case get_item_by_id c (parent_id (obj s cur)) s of
           Inl x \<Rightarrow> Some (Inl x)
           | Inr (fetched, s1) \<Rightarrow>
               walk c fetched (List.insert (parent_id (obj s cur)) tf) s1
      else Some (Inr (tf, s))) = Some y"
  show "keeps_config s y"
  proof (cases "parent_id (obj s cur) \<noteq> 0 \<and> parent_id (obj s cur) \<notin> keys s")
    case False
    with body have "y = Inr (tf, s)" by auto
    then show ?thesis by (simp add: keeps_config_return same_config_refl)
  next
    case True
    let ?g = "get_item_by_id c (parent_id (obj s cur)) s"
    let ?f = "\<lambda>fetched s1. case walk c fetched (List.insert (parent_id (obj s cur)) tf) s1 of
                 Some r \<Rightarrow> r | None \<Rightarrow> Inr (tf, s1)"
    have "keeps_config s (case ?g of Inl x \<Rightarrow> Inl x | Inr (fetched, s1) \<Rightarrow> ?f fetched s1)"
    proof (rule keeps_config_bind [OF keeps_config_get_item_by_id])
      fix fetched s1
      show "keeps_config s1 (?f fetched s1)"
        by (cases "walk c fetched (List.insert (parent_id (obj s cur)) tf) s1")
          (simp_all add: keeps_config_return same_config_refl IH)
    qed
    moreover from body True
    have "y = (case ?g of Inl x \<Rightarrow> Inl x | Inr (fetched, s1) \<Rightarrow> ?f fetched s1)"
      by (auto split: sum.splits)
    ultimately show ?thesis by simp
  qed
qed

lemma keeps_config_scan_items:
  "scan_items c xs tf s = Some r \<Longrightarrow> keeps_config s r"
proof (induction xs arbitrary: tf s r)
  case Nil
  then show ?case by (auto simp: keeps_config_return same_config_refl)
next
  case (Cons x xs)
  from Cons.prems obtain r1 where w: "walk_parents c x tf s = Some r1"
    by (auto split: option.splits)
  let ?f = "\<lambda>tf1 s1. case scan_items c xs tf1 s1 of Some r \<Rightarrow> r | None \<Rightarrow> Inr (tf1, s1)"
  have "keeps_config s (case r1 of Inl x \<Rightarrow> Inl x | Inr (tf1, s1) \<Rightarrow> ?f tf1 s1)"
  proof (rule keeps_config_bind [OF keeps_config_walk_parents [OF w]])
    fix tf1 s1
    show "keeps_config s1 (?f tf1 s1)"
      by (cases "scan_items c xs tf1 s1")
        (auto simp: keeps_config_return same_config_refl intro: Cons.IH)
  qed
  moreover from Cons.prems w
  have "r = (case r1 of Inl x \<Rightarrow> Inl x | Inr (tf1, s1) \<Rightarrow> ?f tf1 s1)"
    by (auto split: sum.splits)
  ultimately show ?case by simp
qed

lemma keeps_config_fetch_parents:
  assumes "fetch_parents c s = Some r"
  shows "keeps_config s r"
proof (cases "platform s \<noteq> AZURE_DEVOPS")
  case True
  with assms show ?thesis
    by (auto simp: fetch_parents_def keeps_config_return same_config_refl)
next
  case False
  with assms obtain r1 where sc: "scan_items c (values_all s) [] s = Some r1"
    by (auto simp: fetch_parents_def split: option.splits)
  have "keeps_config s
      (case r1 of Inl x \<Rightarrow> Inl x | Inr (tf, s1) \<Rightarrow> fetch_batches c (batches 10 tf) s1)"
    by (rule keeps_config_bind [OF keeps_config_scan_items [OF sc]])
      (rule keeps_config_fetch_batches)
  moreover from assms False sc
  have "r = (case r1 of Inl x \<Rightarrow> Inl x | Inr (tf, s1) \<Rightarrow> fetch_batches c (batches 10 tf) s1)"
    by (auto simp: fetch_parents_def split: sum.splits)
  ultimately show ?thesis by simp
qed

lemma same_config_fold_set_parent_id: "same_config s (fold (set_parent_id v) xs s)"
proof (induction xs arbitrary: s)
  case Nil
  show ?case by (simp add: same_config_refl)
next
  case (Cons x xs)
  have "same_config s (set_parent_id v x s)"
    by (simp add: set_parent_id_def same_config_def)
  from same_config_trans [OF this Cons.IH] show ?case by simp
qed

lemma same_config_create_other_parent: "same_config s (create_other_parent s)"
proof -
  have "\<And>t. same_config s t \<Longrightarrow> same_config s (fold (set_parent_id 0) (orphaned_items s) t)"
    using same_config_fold_set_parent_id same_config_trans by blast
  then show ?thesis
    by (simp add: create_other_parent_def Let_def alloc_def same_config_refl)
      (simp add: same_config_def)
qed

lemma keeps_config_populate_azure:
  assumes "populate_azure c fetched s = Some r"
  shows "keeps_config s r"
proof -
  let ?s1 = "s\<lparr>item_ids := map id' fetched\<rparr>"
  have c1: "same_config s ?s1" by (simp add: same_config_def)
  show ?thesis
  proof (cases "gather_get_item_by_id c (map id' fetched) ?s1")
    case (Inl x)
    with assms have "r = Inl x" by (simp add: populate_azure_def)
    moreover from keeps_config_gather [of ?s1 c "map id' fetched"] Inl
    have "same_config ?s1 (state_of (Inl x :: unit result))"
      by (cases x) (simp add: keeps_config_def state_of_def)
    ultimately show ?thesis
      using same_config_trans [OF c1] by (simp add: keeps_config_def)
  next
    case (Inr y)
    obtain as s2 where y: "y = (as, s2)" by (cases y)
    from keeps_config_gather [of ?s1 c "map id' fetched"] Inr y
    have "same_config ?s1 s2" by (simp add: keeps_config_def state_of_def)
    with c1 have c2: "same_config s s2" by (rule same_config_trans)
    from assms Inr y obtain r2 where fp: "fetch_parents c s2 = Some r2"
      by (cases "fetch_parents c s2") (simp_all add: populate_azure_def)
    from keeps_config_fetch_parents [OF fp] have k2: "same_config s2 (state_of r2)"
      by (simp add: keeps_config_def)
    show ?thesis
    proof (cases r2)
      case (Inl x)
      with assms Inr y fp have "r = Inl x" by (simp add: populate_azure_def)
      moreover from k2 Inl have "same_config s2 (state_of (Inl x :: unit result))"
        by (cases x) (simp add: state_of_def)
      ultimately show ?thesis
        using same_config_trans [OF c2] by (simp add: keeps_config_def)
    next
      case (Inr z)
      obtain u s3 where z: "z = (u, s3)" by (cases z)
      with assms \<open>gather_get_item_by_id c (map id' fetched) ?s1 = Inr y\<close> y fp Inr
      have r: "r = Inr ((), create_other_parent s3)" by (simp add: populate_azure_def)
      from k2 Inr z have "same_config s2 s3" by (simp add: state_of_def)
      with c2 have "same_config s s3" by (rule same_config_trans)
      from same_config_trans [OF this same_config_create_other_parent]
      show ?thesis by (simp add: r keeps_config_def state_of_def)
    qed
  qed
qed

lemma same_config_add_each: "same_config s (snd (add_each xs s))"
proof (induction xs arbitrary: s)
  case Nil
  show ?case by (simp add: same_config_refl)
next
  case (Cons x xs)
  from same_config_trans [OF same_config_add [of s x] Cons.IH [of "snd (add x s)"]]
  show ?case by (simp add: case_prod_unfold Let_def)
qed

lemma same_config_fold_register_child: "same_config s (fold register_child xs s)"
proof (induction xs arbitrary: s)
  case Nil
  show ?case by (simp add: same_config_refl)
next
  case (Cons x xs)
  have "same_config s (register_child x s)"
    by (simp add: register_child_def same_config_def)
  from same_config_trans [OF this Cons.IH] show ?case by simp
qed

lemma same_config_fold_roots:
  "same_config s (fold (\<lambda>root_item st. fold register_child (children (obj st root_item)) st) rs s)"
proof (induction rs arbitrary: s)
  case Nil
  show ?case by (simp add: same_config_refl)
next
  case (Cons r rs)
  from same_config_trans [OF same_config_fold_register_child Cons.IH] show ?case by simp
qed

lemma same_config_populate_github: "same_config s (populate_github fetched s)"
proof -
  have "same_config (snd (add_each fetched s)\<lparr>root_items := fst (add_each fetched s)\<rparr>)
      (register_children (snd (add_each fetched s)\<lparr>root_items := fst (add_each fetched s)\<rparr>))"
    unfolding register_children_def by (rule same_config_fold_roots)
  with same_config_add_each [of s fetched] show ?thesis
    by (simp add: populate_github_def case_prod_unfold Let_def same_config_def)
qed

lemma keeps_config_summarize_work_item: "keeps_config s (summarize_work_item c x s)"
  by (simp add: summarize_work_item_def keeps_config_def state_of_def same_config_def
      split: sum.splits)

lemma state_of_gather_summarize_work_item:
  "state_of (gather_summarize_work_item c (x # xs) s)
     = state_of (gather_summarize_work_item c xs (state_of (summarize_work_item c x s)))"
  by (auto simp: state_of_def split: sum.splits)

lemma keeps_config_gather_summarize: "keeps_config s (gather_summarize_work_item c xs s)"
proof (induction xs arbitrary: s)
  case Nil
  show ?case by (simp add: keeps_config_return same_config_refl)
next
  case (Cons x xs)
  let ?s1 = "state_of (summarize_work_item c x s)"
  from keeps_config_summarize_work_item have "same_config s ?s1"
    by (simp add: keeps_config_def)
  moreover from Cons.IH
  have "same_config ?s1 (state_of (gather_summarize_work_item c xs ?s1))"
    by (simp add: keeps_config_def)
  ultimately show ?case
    unfolding keeps_config_def state_of_gather_summarize_work_item by (rule same_config_trans)
qed

lemma keeps_config_summarize_pass: "keeps_config s (summarize_pass c s)"
proof (cases "item_summary s")
  case True
  have "keeps_config s
     (case gather_summarize_work_item c (summary_candidates s) s of
           Inl x \<Rightarrow> Inl x
         | Inr (as, s1) \<Rightarrow> Inr ((), s1))"
    by (rule keeps_config_bind [OF keeps_config_gather_summarize])
      (simp add: keeps_config_return same_config_refl)
  with True show ?thesis by (simp add: summarize_pass_def case_prod_unfold)
next
  case False
  then show ?thesis by (simp add: summarize_pass_def keeps_config_return same_config_refl)
qed

lemma pipeline_stages:
  assumes "get_items_with_details c s = Some (Inr (roots, s'))"
  shows "\<exists>s1 s2. same_config s s1 \<and> summarize_pass c s1 = Inr ((), s2) \<and> same_config s s2
           \<and> build_groups c s2 = Inr ((), s') \<and> roots = root_items s'"
proof -
  from assms obtain created fetched where
    d: "get_work_items_with_details c (length (heap s)) = Inr (created, fetched)"
    by (auto simp: get_items_with_details_def split: sum.splits)
  let ?s0 = "s\<lparr>heap := heap s @ created\<rparr>"
  have c0: "same_config s ?s0" by (simp add: same_config_def)
  from assms d obtain s1 s2 where
    p: "(if platform s = GITHUB then Some (Inr ((), populate_github fetched ?s0))
         else populate_azure c fetched ?s0) = Some (Inr ((), s1))"
    and sp: "summarize_pass c s1 = Inr ((), s2)"
    and bg: "build_groups c s2 = Inr ((), s')" and r: "roots = root_items s'"
    by (auto simp: get_items_with_details_def split: sum.splits option.splits if_splits)
  have "same_config ?s0 s1"
  proof (cases "platform s = GITHUB")
    case True
    with p have "s1 = populate_github fetched ?s0" by simp
    then show ?thesis by (simp add: same_config_populate_github)
  next
    case False
    with p have "populate_azure c fetched ?s0 = Some (Inr ((), s1))" by simp
    from keeps_config_populate_azure [OF this] show ?thesis
      by (simp add: keeps_config_def state_of_def)
  qed
  with c0 have c1: "same_config s s1" by (rule same_config_trans)
  from keeps_config_summarize_pass [of s1 c] sp have "same_config s1 s2"
    by (simp add: keeps_config_def state_of_def)
  with c1 have c2: "same_config s s2" by (rule same_config_trans)
  from c1 sp c2 bg r show ?thesis by blast
qed

lemma same_config_build_groups:
  "build_groups c s = Inr ((), s') \<Longrightarrow> same_config s s'"
  by (auto simp: build_groups_def same_config_def split: if_splits sum.splits)

lemma same_config_get_items_with_details:
  assumes "get_items_with_details c s = Some (Inr (roots, s'))"
  shows "same_config s s'"
proof -
  from pipeline_stages [OF assms] obtain s2 where "same_config s s2"
    "build_groups c s2 = Inr ((), s')" by blast
  then show ?thesis using same_config_build_groups same_config_trans by blast
qed

section \<open>Commits\<close>

lemma upt_shift: "[n..<n + Suc m] = n # [Suc n..<Suc n + m]"
  by (subst upt_rec) simp

lemma alloc_each_eq:
  "alloc_each xs s = ([length (heap s)..<length (heap s) + length xs], s\<lparr>heap := heap s @ xs\<rparr>)"
proof (induction xs arbitrary: s)
  case Nil
  show ?case by simp
next
  case (Cons x xs)
  have "alloc_each (x # xs) s =
      (length (heap s) # [Suc (length (heap s))..<Suc (length (heap s)) + length xs],
       s\<lparr>heap := heap s @ x # xs\<rparr>)"
    by (simp add: Cons.IH alloc_def)
  then show ?case by (metis upt_shift length_Cons)
qed

lemma append_commits_cases:
  assumes "append_commits c s = Inr (groups, s')"
  shows "groups = by_type s'
     \<and> (if include_commits s \<and> \<not> (\<exists>group \<in> set (by_type s). group_type group = ''Commit'')
        then \<exists>commits. get_commits c = Inr commits
               \<and> by_type s' = by_type s @
                   [\<lparr>group_type = ''Commit'', group_icon = commit_icon,
                     items = [length (heap s)..<length (heap s) + length commits]\<rparr>]
               \<and> heap s' = heap s @ map (convert_commit_to_work_item c) commits
        else s' = s)"
  using assms
  by (auto simp: append_commits_def alloc_each_eq Let_def split: sum.splits if_splits)

text \<open>
  C8. \<open>generate_ordered_work_items\<close> first computes the groups when there are none
  (\<open>s1\<close> is the state after that). It then appends one group of type "Commit", after
  all groups of \<open>s1\<close>, exactly when \<open>include_commits\<close> is set and \<open>s1\<close> has no group
  of type "Commit"; the items of that group are the commits as converted by the adapter.
  Otherwise the groups are those of \<open>s1\<close>. So the call never adds a second "Commit"
  group.
\<close>

theorem commit_group_appended_once:
  assumes "generate_ordered_work_items c s = Some (Inr (groups, s'))"
  shows "\<exists>s1. (if by_type s = []
               then \<exists>roots. get_items_with_details c s = Some (Inr (roots, s1))
               else s1 = s)
          \<and> groups = by_type s'
          \<and> (if include_commits s \<and> \<not> (\<exists>group \<in> set (by_type s1). group_type group = ''Commit'')
             then \<exists>commits. get_commits c = Inr commits
                    \<and> by_type s' = by_type s1 @
                        [\<lparr>group_type = ''Commit'', group_icon = commit_icon,
                          items = [length (heap s1)..<length (heap s1) + length commits]\<rparr>]
                    \<and> map (obj s') [length (heap s1)..<length (heap s1) + length commits]
                        = map (convert_commit_to_work_item c) commits
             else by_type s' = by_type s1)
          \<and> length [group \<leftarrow> by_type s'. group_type group = ''Commit'']
              = (if include_commits s \<and> \<not> (\<exists>group \<in> set (by_type s1). group_type group = ''Commit'')
                 then 1 else length [group \<leftarrow> by_type s1. group_type group = ''Commit''])"
proof -
  from assms obtain x s1 where
    1: "(if by_type s = [] then get_items_with_details c s else Some (Inr ([], s)))
          = Some (Inr (x, s1))"
    and 2: "append_commits c s1 = Inr (groups, s')"
    by (auto simp: generate_ordered_work_items_def split: option.splits sum.splits)
  from 1 have a: "if by_type s = []
               then \<exists>roots. get_items_with_details c s = Some (Inr (roots, s1))
               else s1 = s"
    by (auto split: if_splits)
  have ic: "include_commits s1 = include_commits s"
  proof (cases "by_type s = []")
    case True
    with 1 have "get_items_with_details c s = Some (Inr (x, s1))" by simp
    from same_config_get_items_with_details [OF this] show ?thesis
      by (simp add: same_config_def)
  next
    case False
    with 1 show ?thesis by simp
  qed
  note ac = append_commits_cases [OF 2]
  from ac have gr: "groups = by_type s'" by blast
  let ?cond = "include_commits s \<and> \<not> (\<exists>group \<in> set (by_type s1). group_type group = ''Commit'')"
  have "(if ?cond
         then \<exists>commits. get_commits c = Inr commits
                \<and> by_type s' = by_type s1 @
                    [\<lparr>group_type = ''Commit'', group_icon = commit_icon,
                      items = [length (heap s1)..<length (heap s1) + length commits]\<rparr>]
                \<and> map (obj s') [length (heap s1)..<length (heap s1) + length commits]
                    = map (convert_commit_to_work_item c) commits
         else by_type s' = by_type s1)
        \<and> length [group \<leftarrow> by_type s'. group_type group = ''Commit'']
            = (if ?cond then 1 else length [group \<leftarrow> by_type s1. group_type group = ''Commit''])"
  proof (cases ?cond)
    case True
    with ac ic obtain commits where g: "get_commits c = Inr commits"
      and b: "by_type s' = by_type s1 @
                   [\<lparr>group_type = ''Commit'', group_icon = commit_icon,
                     items = [length (heap s1)..<length (heap s1) + length commits]\<rparr>]"
      and h: "heap s' = heap s1 @ map (convert_commit_to_work_item c) commits"
      by auto
    have m: "map (obj s') [length (heap s1)..<length (heap s1) + length commits]
                        = map (convert_commit_to_work_item c) commits"
      by (rule nth_equalityI) (simp_all add: obj_def h)
    from True have "[group \<leftarrow> by_type s1. group_type group = ''Commit''] = []"
      by (auto simp: filter_empty_conv)
    then have l: "length [group \<leftarrow> by_type s'. group_type group = ''Commit''] = 1"
      by (simp add: b)
    from g b m have "\<exists>commits. get_commits c = Inr commits
                \<and> by_type s' = by_type s1 @
                    [\<lparr>group_type = ''Commit'', group_icon = commit_icon,
                      items = [length (heap s1)..<length (heap s1) + length commits]\<rparr>]
                \<and> map (obj s') [length (heap s1)..<length (heap s1) + length commits]
                    = map (convert_commit_to_work_item c) commits"
      by blast
    with l True show ?thesis by (simp only: if_True simp_thms)
  next
    case False
    with ac ic have "s' = s1" by (simp only: if_False)
    with False show ?thesis by (simp only: if_False simp_thms)
  qed
  with a gr show ?thesis by blast
qed

lemma generate_grouped:
  "generate_ordered_work_items commit_client grouped_store
     = Some (Inr (by_type commits_merged, commits_merged))"
  by (simp add: generate_ordered_work_items_def append_commits_def grouped_store_def
      init_work_def commit_client_def commits_merged_def alloc_def Let_def)

lemma generate_again:
  "generate_ordered_work_items commit_client commits_merged
     = Some (Inr (by_type commits_merged, commits_merged))"
  by (simp add: generate_ordered_work_items_def append_commits_def grouped_store_def
      init_work_def commits_merged_def)

theorem commit_group_appended_once_witness:
  "generate_ordered_work_items commit_client grouped_store
     = Some (Inr (by_type commits_merged, commits_merged))
   \<and> include_commits grouped_store
   \<and> map group_type (by_type grouped_store) = [''Bug'']
   \<and> map group_type (by_type commits_merged) = [''Bug'', ''Commit'']
   \<and> length [group \<leftarrow> by_type commits_merged. group_type group = ''Commit''] = 1
   \<and> generate_ordered_work_items commit_client commits_merged
     = Some (Inr (by_type commits_merged, commits_merged))"
proof -
  have b: "by_type grouped_store \<noteq> []" "include_commits grouped_store"
    "map group_type (by_type grouped_store) = [''Bug'']"
    by (simp_all add: grouped_store_def init_work_def)
  have m: "map group_type (by_type commits_merged) = [''Bug'', ''Commit'']"
    by (simp add: commits_merged_def grouped_store_def init_work_def)
  from commit_group_appended_once [OF generate_grouped] b
  have "length [group \<leftarrow> by_type commits_merged. group_type group = ''Commit''] = 1"
    by auto
  with generate_grouped generate_again b m show ?thesis by blast
qed

section \<open>Groups\<close>

lemma first_seen_snoc:
  "first_seen seen (xs @ [t]) =
     first_seen seen xs @ (if t \<in> set seen \<union> set xs then [] else [t])"
  by (induction xs arbitrary: seen) auto

lemma set_first_seen: "set (first_seen seen xs) = set xs - set seen"
  by (induction xs arbitrary: seen) auto

lemma types_group_insert:
  "map group_type (group_insert h a gs) =
     (if type (h ! a) \<in> set (map group_type gs) then map group_type gs
      else map group_type gs @ [type (h ! a)])"
  by (induction gs) auto

lemma in_group_insert:
  assumes "g' \<in> set (group_insert h a gs)" and "distinct (map group_type gs)"
  shows "(g' \<in> set gs \<and> group_type g' \<noteq> type (h ! a))
       \<or> (\<exists>g \<in> set gs. group_type g = type (h ! a) \<and> g' = g\<lparr>items := items g @ [a]\<rparr>)
       \<or> (type (h ! a) \<notin> set (map group_type gs)
           \<and> g' = \<lparr>group_type = type (h ! a), group_icon = icon (h ! a), items = [a]\<rparr>)"
  using assms
proof (induction gs)
  case Nil
  then show ?case by simp
next
  case (Cons g gs)
  show ?case
  proof (cases "group_type g = type (h ! a)")
    case True
    with Cons.prems show ?thesis by (auto simp: image_iff)
  next
    case False
    with Cons.prems have "g' = g \<or> g' \<in> set (group_insert h a gs)" by auto
    then show ?thesis
    proof
      assume "g' = g"
      with False show ?thesis by simp
    next
      assume "g' \<in> set (group_insert h a gs)"
      from Cons.IH [OF this] Cons.prems(2) False show ?thesis by auto
    qed
  qed
qed

lemma distinct_first_seen: "distinct (first_seen seen xs)"
  by (induction xs arbitrary: seen) (auto simp: set_first_seen)

lemma hierarchy_groups_shape:
  "map group_type (hierarchy_groups h roots) = first_seen [] (map (\<lambda>a. type (h ! a)) roots)
   \<and> (\<forall>g \<in> set (hierarchy_groups h roots).
         items g = [a \<leftarrow> roots. type (h ! a) = group_type g]
         \<and> group_icon g = icon (h ! hd (items g)))"
proof (induction roots rule: rev_induct)
  case Nil
  show ?case by (simp add: hierarchy_groups_def)
next
  case (snoc a xs)
  let ?gs = "hierarchy_groups h xs"
  let ?ty = "\<lambda>a. type (h ! a)"
  have step: "hierarchy_groups h (xs @ [a]) = group_insert h a ?gs"
    by (simp add: hierarchy_groups_def)
  from snoc have ty: "map group_type ?gs = first_seen [] (map ?ty xs)"
    and it: "\<And>g. g \<in> set ?gs \<Longrightarrow> items g = [a \<leftarrow> xs. ?ty a = group_type g]"
    and ic: "\<And>g. g \<in> set ?gs \<Longrightarrow> group_icon g = icon (h ! hd (items g))"
    by blast+
  have tyset: "set (map group_type ?gs) = set (map ?ty xs)"
    by (simp only: ty set_first_seen) simp
  have dist: "distinct (map group_type ?gs)"
    by (simp only: ty distinct_first_seen)
  have 1: "map group_type (group_insert h a ?gs) = first_seen [] (map ?ty (xs @ [a]))"
    using tyset by (simp add: types_group_insert first_seen_snoc ty)
  have 2: "\<forall>g' \<in> set (group_insert h a ?gs).
         items g' = [b \<leftarrow> xs @ [a]. ?ty b = group_type g']
         \<and> group_icon g' = icon (h ! hd (items g'))"
  proof
    fix g' assume "g' \<in> set (group_insert h a ?gs)"
    from in_group_insert [OF this dist]
    consider (old) "g' \<in> set ?gs" "group_type g' \<noteq> ?ty a"
      | (hit) g where "g \<in> set ?gs" "group_type g = ?ty a" "g' = g\<lparr>items := items g @ [a]\<rparr>"
      | (new) "?ty a \<notin> set (map group_type ?gs)"
          "g' = \<lparr>group_type = ?ty a, group_icon = icon (h ! a), items = [a]\<rparr>"
      by blast
    then show "items g' = [b \<leftarrow> xs @ [a]. ?ty b = group_type g']
         \<and> group_icon g' = icon (h ! hd (items g'))"
    proof cases
      case old
      then show ?thesis using it [of g'] ic [of g'] by auto
    next
      case hit
      from hit(1,2) tyset have "?ty a \<in> set (map ?ty xs)"
        by (metis image_eqI list.set_map)
      then have "[b \<leftarrow> xs. ?ty b = ?ty a] \<noteq> []"
        by (auto simp: filter_empty_conv)
      with hit it [of g] ic [of g] show ?thesis by auto
    next
      case new
      from new(1) tyset have "?ty a \<notin> ?ty ` set xs" by simp
      then have "[b \<leftarrow> xs. ?ty b = ?ty a] = []"
        by (simp add: filter_empty_conv) (metis image_eqI)
      with new(2) show ?thesis by simp
    qed
  qed
  from 1 2 show ?case by (simp only: step) 
qed

lemma build_groups_shape:
  assumes "build_groups c s = Inr ((), s')"
  shows "(platform s \<noteq> AZURE_DEVOPS \<longrightarrow>
            root_items s' = root_items s \<and> by_type s' = map (group_of_root s) (root_items s))
       \<and> (platform s = AZURE_DEVOPS \<and> Hierarchy c = Hierarchy_spec \<longrightarrow>
            map group_type (by_type s') = first_seen [] (map (\<lambda>a. type (obj s a)) (root_items s'))
            \<and> (\<forall>g \<in> set (by_type s').
                  items g = [a \<leftarrow> root_items s'. type (obj s a) = group_type g]
                  \<and> group_icon g = icon (obj s (hd (items g)))))"
proof (intro conjI impI)
  assume "platform s \<noteq> AZURE_DEVOPS"
  with assms have "s' = s\<lparr>by_type := map (group_of_root s) (root_items s)\<rparr>"
    by (simp add: build_groups_def)
  then show "root_items s' = root_items s" and "by_type s' = map (group_of_root s) (root_items s)"
    by simp_all
next
  assume a: "platform s = AZURE_DEVOPS \<and> Hierarchy c = Hierarchy_spec"
  with assms have s': "s' = s\<lparr>heap := attach_children (heap s) (all s),
        root_items := hierarchy_roots (heap s) (all s),
        by_type := hierarchy_groups (heap s) (hierarchy_roots (heap s) (all s))\<rparr>"
    by (simp add: build_groups_def Hierarchy_spec_def)
  have o: "obj s = (!) (heap s)" by (rule ext) (simp add: obj_def)
  from hierarchy_groups_shape [of "heap s" "hierarchy_roots (heap s) (all s)"]
  show "map group_type (by_type s') = first_seen [] (map (\<lambda>a. type (obj s a)) (root_items s'))"
    and "\<forall>g \<in> set (by_type s').
                  items g = [a \<leftarrow> root_items s'. type (obj s a) = group_type g]
                  \<and> group_icon g = icon (obj s (hd (items g)))"
    by (simp_all add: s' o)
qed

lemma github_run:
  "get_items_with_details github_client (init_work GITHUB False False)
     = Some (Inr ([1, 2, 3], github_result))"
  by (simp add: get_items_with_details_def github_client_def chain_client_def init_work_def
      populate_github_def add_def alloc_def register_children_def register_child_def obj_def
      summarize_pass_def build_groups_def group_of_root_def github_result_def
      hierarchical_def sample_item_def)

lemma azure_three_details:
  "get_work_items_with_details azure_three_client
     (length (heap (init_work AZURE_DEVOPS False False)))
     = Inr ([], [hierarchical (sample_item 1 ''Bug'' 0 False),
                 hierarchical (sample_item 2 ''Bug'' 0 False),
                 hierarchical (sample_item 3 ''Feature'' 0 False)])"
  by (simp add: azure_three_client_def)

lemma azure_three_gather:
  "gather_get_item_by_id azure_three_client
     (map id' [hierarchical (sample_item 1 ''Bug'' 0 False),
               hierarchical (sample_item 2 ''Bug'' 0 False),
               hierarchical (sample_item 3 ''Feature'' 0 False)])
     ((init_work AZURE_DEVOPS False False)
        \<lparr>heap := heap (init_work AZURE_DEVOPS False False) @ [],
         item_ids := map id' [hierarchical (sample_item 1 ''Bug'' 0 False),
               hierarchical (sample_item 2 ''Bug'' 0 False),
               hierarchical (sample_item 3 ''Feature'' 0 False)]\<rparr>)
     = Inr ([0, 1, 2], three_fetched)"
  by (simp add: get_item_by_id_def azure_three_client_def add_def alloc_def init_work_def
      three_fetched_def three_roots_def hierarchical_def sample_item_def)

lemma azure_three_parents:
  "fetch_parents azure_three_client three_fetched = Some (Inr ((), three_fetched))"
  by (simp add: fetch_parents_def three_fetched_def three_roots_def init_work_def
      values_all_def walk_parents.simps obj_def batches_def hierarchical_def sample_item_def)

lemma azure_three_other: "create_other_parent three_fetched = three_fetched"
  by (simp add: create_other_parent_def orphaned_items_def values_all_def obj_def
      three_fetched_def three_roots_def init_work_def hierarchical_def sample_item_def)

lemma azure_three_summaries: "summarize_pass azure_three_client three_fetched = Inr ((), three_fetched)"
  by (simp add: summarize_pass_def three_fetched_def three_roots_def init_work_def)

lemma azure_three_groups:
  "build_groups azure_three_client three_fetched = Inr ((), azure_three_result)"
  by (simp add: build_groups_def azure_three_client_def chain_client_def Hierarchy_spec_def
      three_fetched_def three_roots_def azure_three_result_def three_roots_grouped_def
      init_work_def attach_children_def hierarchy_roots_def hierarchy_groups_def
      hierarchical_def sample_item_def upt_rec)

lemma azure_three_populate:
  "populate_azure azure_three_client
     [hierarchical (sample_item 1 ''Bug'' 0 False),
      hierarchical (sample_item 2 ''Bug'' 0 False),
      hierarchical (sample_item 3 ''Feature'' 0 False)]
     ((init_work AZURE_DEVOPS False False)
        \<lparr>heap := heap (init_work AZURE_DEVOPS False False) @ []\<rparr>)
     = Some (Inr ((), three_fetched))"
  by (simp only: populate_azure_def Let_def azure_three_gather azure_three_parents
      azure_three_other sum.case prod.case option.case)

lemma azure_three_run:
  "get_items_with_details azure_three_client (init_work AZURE_DEVOPS False False)
     = Some (Inr ([0, 1, 2], azure_three_result))"
proof -
  have p: "(platform (init_work AZURE_DEVOPS False False) = GITHUB) = False"
    by (simp add: init_work_def)
  have r: "root_items azure_three_result = [0, 1, 2]"
    by (simp add: azure_three_result_def three_roots_grouped_def)
  show ?thesis
    by (simp only: get_items_with_details_def azure_three_details azure_three_populate
        azure_three_summaries azure_three_groups p r if_False sum.case prod.case option.case)
qed

text \<open>
  C4, as the code has it. \<open>get_items_with_details\<close> returns the root items of the
  final state; \<open>s2\<close> is the state in which lines 176-186 run. On GitHub (lines 181-186)
  the group list has one group for every root item, in the order of the root items: the
  group carries the root item's type and icon, and its items are the root item's
  children. Root items of one type are not merged. On Azure DevOps (lines 177-179) the
  root items and the groups are those of the hierarchy builder; as the spec describes
  the builder, there is one group for every type among the root items, in first-seen
  order, and the items of a group are the root items of its type, in their order.
\<close>

theorem group_list_shape:
  assumes "get_items_with_details c s = Some (Inr (roots, s'))"
  shows "\<exists>s2. build_groups c s2 = Inr ((), s') \<and> platform s2 = platform s
          \<and> roots = root_items s'
          \<and> (platform s \<noteq> AZURE_DEVOPS \<longrightarrow>
                root_items s' = root_items s2 \<and> by_type s' = map (group_of_root s') roots)
          \<and> (platform s = AZURE_DEVOPS \<and> Hierarchy c = Hierarchy_spec \<longrightarrow>
                map group_type (by_type s') = first_seen [] (map (\<lambda>a. type (obj s2 a)) roots)
                \<and> (\<forall>g \<in> set (by_type s').
                      items g = [a \<leftarrow> roots. type (obj s2 a) = group_type g]
                      \<and> group_icon g = icon (obj s2 (hd (items g)))))"
proof -
  from pipeline_stages [OF assms] obtain s2 where
    c2: "same_config s s2" and bg: "build_groups c s2 = Inr ((), s')"
    and r: "roots = root_items s'" by blast
  from c2 have p: "platform s2 = platform s" by (simp add: same_config_def)
  note sh = build_groups_shape [OF bg]
  have "platform s \<noteq> AZURE_DEVOPS \<longrightarrow>
                root_items s' = root_items s2 \<and> by_type s' = map (group_of_root s') roots"
  proof
    assume n: "platform s \<noteq> AZURE_DEVOPS"
    with sh p have 1: "root_items s' = root_items s2"
      and 2: "by_type s' = map (group_of_root s2) (root_items s2)" by simp_all
    from bg n p have "heap s' = heap s2" by (auto simp: build_groups_def)
    then have "group_of_root s' = group_of_root s2"
      by (intro ext) (simp add: group_of_root_def obj_def)
    with 1 2 r show "root_items s' = root_items s2 \<and> by_type s' = map (group_of_root s') roots"
      by simp
  qed
  moreover have "platform s = AZURE_DEVOPS \<and> Hierarchy c = Hierarchy_spec \<longrightarrow>
                map group_type (by_type s') = first_seen [] (map (\<lambda>a. type (obj s2 a)) roots)
                \<and> (\<forall>g \<in> set (by_type s').
                      items g = [a \<leftarrow> roots. type (obj s2 a) = group_type g]
                      \<and> group_icon g = icon (obj s2 (hd (items g))))"
    using sh p r by simp
  ultimately show ?thesis using bg p r by blast
qed


theorem group_list_shape_witness:
  "get_items_with_details azure_three_client (init_work AZURE_DEVOPS False False)
     = Some (Inr ([0, 1, 2], azure_three_result))
   \<and> platform (init_work AZURE_DEVOPS False False) = AZURE_DEVOPS
   \<and> Hierarchy azure_three_client = Hierarchy_spec
   \<and> root_items azure_three_result = [0, 1, 2]
   \<and> map (\<lambda>a. type (obj azure_three_result a)) [0, 1, 2] = [''Bug'', ''Bug'', ''Feature'']
   \<and> map group_type (by_type azure_three_result) = [''Bug'', ''Feature'']
   \<and> map items (by_type azure_three_result) = [[0, 1], [2]]
   \<and> get_items_with_details github_client (init_work GITHUB False False)
       = Some (Inr ([1, 2, 3], github_result))
   \<and> platform (init_work GITHUB False False) \<noteq> AZURE_DEVOPS
   \<and> by_type github_result = map (group_of_root github_result) [1, 2, 3]"
proof -
  have p: "platform (init_work AZURE_DEVOPS False False) = AZURE_DEVOPS"
    "Hierarchy azure_three_client = Hierarchy_spec"
    "platform (init_work GITHUB False False) \<noteq> AZURE_DEVOPS"
    by (simp_all add: init_work_def azure_three_client_def chain_client_def)
  have t: "map (\<lambda>a. type (obj azure_three_result a)) [0, 1, 2] = [''Bug'', ''Bug'', ''Feature'']"
    "map group_type (by_type azure_three_result) = [''Bug'', ''Feature'']"
    "map items (by_type azure_three_result) = [[0, 1], [2]]"
    by (simp_all add: azure_three_result_def three_roots_grouped_def three_roots_def
        init_work_def obj_def hierarchical_def sample_item_def)
  from group_list_shape [OF azure_three_run]
  obtain s2 where "[0, 1, 2] = root_items azure_three_result" by (elim exE conjE)
  then have r: "root_items azure_three_result = [0, 1, 2]" by (rule sym)
  have g: "by_type github_result = map (group_of_root github_result) [1, 2, 3]"
    using group_list_shape [OF github_run] p(3) by (elim exE conjE) simp
  from azure_three_run p t r github_run g show ?thesis by blast
qed



text \<open>
  The claim C4 as stated fails on GitHub: for root items of types Bug, Bug, Feature the
  run yields three groups, of types Bug, Bug, Feature, whose items are the children of
  the root items.
\<close>

theorem grouping_counterexample:
  "get_items_with_details github_client (init_work GITHUB False False)
     = Some (Inr ([1, 2, 3], github_result))
   \<and> map (\<lambda>a. type (obj github_result a)) [1, 2, 3] = [''Bug'', ''Bug'', ''Feature'']
   \<and> map group_type (by_type github_result) = [''Bug'', ''Bug'', ''Feature'']
   \<and> map items (by_type github_result) = [[0], [], []]"
  by (simp add: github_run) (simp add: github_result_def init_work_def obj_def hierarchical_def sample_item_def)

end
